theory Spec2Isabelle
  imports Main
begin

text \<open>
  A model of the class \<^verbatim>\<open>CatkinWorkspace\<close> of \<^verbatim>\<open>src/catkin_workspace.ts\<close>. The object is a
  record that each method takes and returns; what a method asks of the outside world
  (the shell, the file system, the editor, the user) comes from a record \<open>host\<close>. A
  method that can raise returns a sum, with the exception on the left, next to the
  workspace as the exception leaves it. An asynchronous method is taken as one step:
  nothing else runs between its start and its end.
\<close>

section \<open>String primitives of the host language\<close>

text \<open>
  Strings are character lists. The functions below are the library calls the workspace
  code makes on strings (\<^verbatim>\<open>startsWith\<close>, \<^verbatim>\<open>indexOf\<close>, \<^verbatim>\<open>split\<close>,
  \<^verbatim>\<open>trim\<close>, \<^verbatim>\<open>slice\<close>, \<^verbatim>\<open>replace\<close>), restricted to the way they are called:
  every separator is a non-empty literal.
\<close>

definition startsWith :: "string \<Rightarrow> string \<Rightarrow> bool" where
  "startsWith s p = (take (length p) s = p)"

text \<open>\<^verbatim>\<open>s.indexOf(p) >= 0\<close>: the pattern occurs somewhere in the string.\<close>

fun str_includes :: "string \<Rightarrow> string \<Rightarrow> bool" where
  "str_includes [] p = (p = [])"
| "str_includes (c # cs) p = (startsWith (c # cs) p \<or> str_includes cs p)"

text \<open>
  \<^verbatim>\<open>s.split(sep)\<close> for a non-empty separator: the pieces between the occurrences of
  the separator, found from left to right; empty pieces are kept, and a string without
  the separator gives the one-element list of itself.
\<close>

fun split_from :: "string \<Rightarrow> string \<Rightarrow> string \<Rightarrow> string list" where
  "split_from sep piece [] = [rev piece]"
| "split_from sep piece (c # cs) =
     (if startsWith (c # cs) sep
      then rev piece # split_from sep [] (drop (length sep - 1) cs)
      else split_from sep (c # piece) cs)"

definition str_split :: "string \<Rightarrow> string \<Rightarrow> string list" where
  "str_split s sep = split_from sep [] s"

text \<open>
  White space and line terminators, within the ASCII range: the Unicode spaces that
  \<^verbatim>\<open>trim\<close> and the pattern \<^verbatim>\<open>\s\<close> also remove (U+00A0, U+FEFF, U+2028 and others) are not
  characters of this model.
\<close>

definition is_space :: "char \<Rightarrow> bool" where
  "is_space c = (c \<in> {CHR 0x20, CHR 0x09, CHR 0x0A, CHR 0x0B, CHR 0x0C, CHR 0x0D})"

definition line_terminator :: "char \<Rightarrow> bool" where
  "line_terminator c = (c = CHR 0x0A \<or> c = CHR 0x0D)"

definition trim :: "string \<Rightarrow> string" where
  "trim s = rev (dropWhile is_space (rev (dropWhile is_space s)))"

text \<open>
  The regular expression \<^verbatim>\<open>.*post\<close> anchored at the start of a string: any run of
  characters other than line terminators, then \<open>post\<close>.
\<close>

fun dot_star_then :: "string \<Rightarrow> string \<Rightarrow> bool" where
  "dot_star_then post [] = (post = [])"
| "dot_star_then post (c # cs) =
     (startsWith (c # cs) post \<or> (\<not> line_terminator c \<and> dot_star_then post cs))"

text \<open>\<^verbatim>\<open>line.match('pre.*post')\<close>: the unanchored search for \<open>pre\<close>, \<^verbatim>\<open>.*\<close>, \<open>post\<close>.\<close>

fun match_pre_dots_post :: "string \<Rightarrow> string \<Rightarrow> string \<Rightarrow> bool" where
  "match_pre_dots_post pre post [] = (pre = [] \<and> post = [])"
| "match_pre_dots_post pre post (c # cs) =
     ((startsWith (c # cs) pre \<and> dot_star_then post (drop (length pre) (c # cs)))
      \<or> match_pre_dots_post pre post cs)"

section \<open>Data model\<close>

text \<open>
  One element of a compile database as the JSON reader returns it: an object on the
  heap. \<open>ref\<close> is the object's address; the comparison \<^verbatim>\<open>!==\<close> of two objects
  compares addresses. The objects are never mutated, so the fields travel with the
  address; \<open>cmd_file\<close> and \<open>cmd_command\<close> are the entries \<^verbatim>\<open>file\<close> and \<^verbatim>\<open>command\<close>.
\<close>

record json_cmd =
  ref :: nat
  cmd_file :: string
  cmd_command :: string

text \<open>The fields of a package the workspace reads and writes.\<close>

record CatkinPackage =
  name :: string
  dependencies :: "string list"
  dependees :: "string list"

datatype prompt = ExportNotEnabled | NoDatabaseFound

datatype item = IgnoreThis | UpdateCatkinConfig | BuildWorkspace

datatype error = TypeError | ExecFailed string

text \<open>
  The workspace object. Arrays that may receive \<^verbatim>\<open>undefined\<close> hold \<open>string option\<close>
  (\<open>None\<close> is \<^verbatim>\<open>undefined\<close>). The two signals are counted: each dispatch adds one.
  The last four fields record effects on the outside world: the shell commands run
  through \<^verbatim>\<open>child_process.execSync\<close>, the warnings shown, the error messages shown,
  and the next free heap address of the JSON reader.
\<close>

record CatkinWorkspace =
  compile_commands :: "string \<rightharpoonup> json_cmd list"
  file_to_command :: "string \<rightharpoonup> json_cmd"
  file_to_compile_commands :: "string \<rightharpoonup> string"
  watchers :: "string set"
  system_include_browse_paths :: "string option list"
  default_system_include_paths :: "string list"
  build_dir :: "string option"
  ignore_missing_db :: bool
  is_initialized :: bool
  build_commands_changed :: nat
  system_paths_changed :: nat
  packages :: "(string \<times> CatkinPackage) list"
  exec_log :: "string list"
  warnings_shown :: "prompt list"
  errors_shown :: nat
  heap_next :: nat

text \<open>What a shell command does: exit status zero with its output, or an exception
  carrying a message.\<close>

datatype exec_result = Exit0 string | Failed string

text \<open>
  The host: the shell, the open workspace folders, the editor configuration and the
  compile-database files on disk (the parsed content of each existing file, as the
  list of its \<open>(file, command)\<close> entries); then what a scan of the build directory
  meets: the answer of \<^verbatim>\<open>getBuildDir\<close> (\<open>None\<close> is \<^verbatim>\<open>null\<close>), whether that directory
  exists, the database files the glob finds, the configuration entry
  \<^verbatim>\<open>Additional CMake Args\<close> (\<open>None\<close> is \<^verbatim>\<open>undefined\<close>), the user's answer to a warning
  with the items offered (\<open>None\<close>: dismissed), whether a build task of this workspace
  exists, and the package descriptors found (\<open>None\<close>: one that fails to parse). The
  answer of \<^verbatim>\<open>getBuildDir\<close> is taken as given: the profile check inside it, which runs a
  reload of its own when the profile has changed, is not followed.
\<close>

record host =
  execSync :: "string \<Rightarrow> exec_result"
  workspaceFolders :: "string list"
  cppStandard :: string
  intelliSenseMode :: string
  db_files :: "string \<rightharpoonup> (string \<times> string) list"
  getBuildDir :: "string option"
  build_dir_exists :: bool
  glob_entries :: "string list"
  additional_cmake_args :: "string option"
  showWarningMessage :: "prompt \<Rightarrow> item list \<Rightarrow> item option"
  build_task_found :: bool
  package_descriptors :: "CatkinPackage option list"

record SourceFileConfiguration =
  cfg_standard :: string
  cfg_intelliSenseMode :: string
  cfg_includePath :: "string option list"
  cfg_defines :: "string list"
  cfg_compilerPath :: string

definition fresh_workspace :: CatkinWorkspace where
  "fresh_workspace = \<lparr>
     compile_commands = Map.empty, file_to_command = Map.empty,
     file_to_compile_commands = Map.empty, watchers = {},
     system_include_browse_paths = [], default_system_include_paths = [],
     build_dir = None, ignore_missing_db = False, is_initialized = False,
     build_commands_changed = 0, system_paths_changed = 0, packages = [],
     exec_log = [], warnings_shown = [], errors_shown = 0, heap_next = 0 \<rparr>"

section \<open>Compiler defaults\<close>

text \<open>The scan of the generic compiler's verbose output, line by line.\<close>

fun cpp_scan :: "bool \<Rightarrow> bool \<Rightarrow> string list \<Rightarrow> string list" where
  "cpp_scan private_includes public_includes [] = []"
| "cpp_scan private_includes public_includes (line # rest) =
     (if match_pre_dots_post (''#include '' @ [CHR 0x22]) ''starts here'' line
      then cpp_scan True False rest
      else if match_pre_dots_post ''#include <'' ''starts here'' line
      then cpp_scan False True rest
      else if str_includes line ''End of search list''
      then cpp_scan False False rest
      else if private_includes \<or> public_includes
      then trim line # cpp_scan private_includes public_includes rest
      else cpp_scan private_includes public_includes rest)"

definition parseCompilerDefaultsCpp ::
  "host \<Rightarrow> string \<Rightarrow> CatkinWorkspace \<Rightarrow> (error + unit) \<times> CatkinWorkspace" where
  "parseCompilerDefaultsCpp h compiler s =
     (let cmd = compiler @ '' -xc++ -E -v /dev/null -o /dev/null 2>&1'';
          s1 = s\<lparr>exec_log := exec_log s @ [cmd]\<rparr>
      in case execSync h cmd of
           Failed msg \<Rightarrow> (Inl (ExecFailed msg), s1)
         | Exit0 stdout \<Rightarrow>
             (Inr (), s1\<lparr>default_system_include_paths :=
                default_system_include_paths s1
                  @ cpp_scan False False (str_split stdout [CHR 0x0A])\<rparr>))"

text \<open>
  The GPU compiler's line pattern \<^verbatim>\<open>/^#\$ INCLUDES="(.*)"\s*$/\<close>: the captured group
  when the line matches. The closing quote is the last character that is not white
  space, and the group holds no line terminator.
\<close>

definition nvcc_includes :: "string \<Rightarrow> string option" where
  "nvcc_includes line =
     (let pre = ''#$ INCLUDES='' @ [CHR 0x22];
          body = rev (dropWhile is_space (rev (drop (length pre) line)))
      in if startsWith line pre \<and> body \<noteq> [] \<and> last body = CHR 0x22
            \<and> \<not> list_ex line_terminator (butlast body)
         then Some (butlast body) else None)"

definition nvcc_line :: "string \<Rightarrow> string list" where
  "nvcc_line line =
     (case nvcc_includes line of
        None \<Rightarrow> []
      | Some captured \<Rightarrow> filter (\<lambda>t. length t > 0) (map trim (str_split captured ''-I'')))"

definition parseCompilerDefaultsNvcc :: "host \<Rightarrow> string \<Rightarrow> CatkinWorkspace \<Rightarrow> CatkinWorkspace" where
  "parseCompilerDefaultsNvcc h compiler s =
     (let cmd = compiler @ '' --dryrun -v /dev/null 1>&2'';
          s1 = s\<lparr>exec_log := exec_log s @ [cmd]\<rparr>
      in case execSync h cmd of
           Exit0 stdout \<Rightarrow> s1
         | Failed msg \<Rightarrow>
             s1\<lparr>default_system_include_paths :=
                default_system_include_paths s1
                  @ concat (map nvcc_line (str_split msg [CHR 0x0A]))\<rparr>)"

text \<open>
  \<open>parseCompilerDefaults\<close> and \<open>parseCompilerDefaultsCcache\<close> call each other; the
  argument list gets shorter on the way. The first branch on the compiler's name has no
  \<^verbatim>\<open>else\<close> in front of the second, as in the source.
\<close>

fun parseCompilerDefaults ::
    "host \<Rightarrow> string \<Rightarrow> string list \<Rightarrow> CatkinWorkspace \<Rightarrow> (error + unit) \<times> CatkinWorkspace"
  and parseCompilerDefaultsCcache ::
    "host \<Rightarrow> string \<Rightarrow> string list \<Rightarrow> CatkinWorkspace \<Rightarrow> (error + unit) \<times> CatkinWorkspace"
where
  "parseCompilerDefaults h compiler args s =
     (let s0 = s\<lparr>default_system_include_paths := []\<rparr>;
          compiler_path = str_split compiler ''/'';
          compiler_name = last compiler_path;
          s1 = (if compiler_name = ''nvcc'' then parseCompilerDefaultsNvcc h compiler s0 else s0);
          r = (if str_includes compiler_name ''ccache''
               then parseCompilerDefaultsCcache h compiler args s1
               else parseCompilerDefaultsCpp h compiler s1)
      in case fst r of
           Inl e \<Rightarrow> (Inl e, snd r)
         | Inr u \<Rightarrow> (Inr (), (snd r)\<lparr>system_paths_changed := Suc (system_paths_changed (snd r))\<rparr>))"
| "parseCompilerDefaultsCcache h caching_compiler [] s = (Inr (), s)"
| "parseCompilerDefaultsCcache h caching_compiler (a # rest) s = parseCompilerDefaults h a rest s"

section \<open>Parsing one compile command\<close>

text \<open>
  \<open>isWorkspacePath\<close> walks the open folders. With \<^verbatim>\<open>undefined\<close> for the path, the call
  \<^verbatim>\<open>path.startsWith(base)\<close> of the first folder raises a TypeError; with no folder there
  is no such call.
\<close>

fun isWorkspacePath :: "string list \<Rightarrow> string option \<Rightarrow> error + bool" where
  "isWorkspacePath [] path = Inr False"
| "isWorkspacePath (ws # folders) path =
     (let base = (if \<not> (ws \<noteq> [] \<and> last ws = CHR ''/'') then ws @ ''/'' else ws) @ ''src''
      in case path of
           None \<Rightarrow> Inl TypeError
         | Some p \<Rightarrow> if startsWith p base then Inr True else isWorkspacePath folders path)"

text \<open>
  The local variables of the option loop, and the block the three include branches
  share: push the path on the include list, then, for a path outside the workspace that
  the browse list does not hold yet, push it there and set the flag.
\<close>

record scan =
  includePaths :: "string option list"
  defines_found :: "string list"
  new_system_path_found :: bool

definition add_include ::
  "host \<Rightarrow> string option \<Rightarrow> scan \<Rightarrow> CatkinWorkspace \<Rightarrow> (error + scan) \<times> CatkinWorkspace" where
  "add_include h path v s =
     (let v1 = v\<lparr>includePaths := includePaths v @ [path]\<rparr>
      in case isWorkspacePath (workspaceFolders h) path of
           Inl e \<Rightarrow> (Inl e, s)
         | Inr True \<Rightarrow> (Inr v1, s)
         | Inr False \<Rightarrow>
             if path \<notin> set (system_include_browse_paths s)
             then (Inr (v1\<lparr>new_system_path_found := True\<rparr>),
                   s\<lparr>system_include_browse_paths := system_include_browse_paths s @ [path]\<rparr>)
             else (Inr v1, s))"

text \<open>
  The loop over \<^verbatim>\<open>args[1..]\<close>. The branch for \<^verbatim>\<open>-isystem\<close> takes the next token
  with no test that there is one: at the end of the list it reads \<^verbatim>\<open>undefined\<close>.
\<close>

fun scan_options ::
  "host \<Rightarrow> string list \<Rightarrow> scan \<Rightarrow> CatkinWorkspace \<Rightarrow> (error + scan) \<times> CatkinWorkspace" where
  "scan_options h [] v s = (Inr v, s)"
| "scan_options h (opt # rest) v s =
     (if startsWith opt ''-I'' then
        (case add_include h (Some (drop 2 opt)) v s of
           (Inl e, s') \<Rightarrow> (Inl e, s')
         | (Inr v', s') \<Rightarrow> scan_options h rest v' s')
      else if opt = ''-isystem'' then
        (case rest of
           [] \<Rightarrow> add_include h None v s
         | p # rest' \<Rightarrow>
             (case add_include h (Some p) v s of
                (Inl e, s') \<Rightarrow> (Inl e, s')
              | (Inr v', s') \<Rightarrow> scan_options h rest' v' s'))
      else if startsWith opt ''-isystem='' then
        (case add_include h (Some (drop 9 opt)) v s of
           (Inl e, s') \<Rightarrow> (Inl e, s')
         | (Inr v', s') \<Rightarrow> scan_options h rest v' s')
      else if startsWith opt ''-D'' then
        scan_options h rest
          (v\<lparr>defines_found := defines_found v @ [filter (\<lambda>c. c \<noteq> CHR 0x5C) (drop 2 opt)]\<rparr>) s
      else scan_options h rest v s)"

text \<open>
  \<open>getSourceFileConfiguration\<close> splits the command at single blanks; the first token is
  the compiler (\<open>str_split\<close> never gives the empty list). The defaults are resolved
  first, and only when the list of default paths is empty. An exception of the resolver
  or of the option loop ends the call with the workspace as it is at that point. The
  lines written to the output channel are left out.
\<close>

definition getSourceFileConfiguration ::
  "host \<Rightarrow> json_cmd \<Rightarrow> CatkinWorkspace \<Rightarrow> (error + SourceFileConfiguration) \<times> CatkinWorkspace" where
  "getSourceFileConfiguration h commands s =
     (let args = str_split (cmd_command commands) '' '';
          compiler = hd args;
          (r0, s0) = (if length (default_system_include_paths s) = 0
                      then parseCompilerDefaults h compiler (tl args) s
                      else (Inr (), s))
      in case r0 of
           Inl e \<Rightarrow> (Inl e, s0)
         | Inr u \<Rightarrow>
            (case scan_options h (tl args)
                    \<lparr>includePaths = [], defines_found = [], new_system_path_found = False\<rparr> s0 of
               (Inl e, s1) \<Rightarrow> (Inl e, s1)
             | (Inr v, s1) \<Rightarrow>
                 (let s2 = (if new_system_path_found v
                            then s1\<lparr>system_paths_changed := Suc (system_paths_changed s1)\<rparr>
                            else s1)
                  in (Inr \<lparr>cfg_standard = cppStandard h,
                           cfg_intelliSenseMode = intelliSenseMode h,
                           cfg_includePath =
                             includePaths v @ map Some (default_system_include_paths s2),
                           cfg_defines = defines_found v,
                           cfg_compilerPath = compiler\<rparr>, s2))))"

section \<open>The compile-database store\<close>

text \<open>The JSON reader: every call builds new objects, at the next free addresses.\<close>

fun readFile :: "nat \<Rightarrow> (string \<times> string) list \<Rightarrow> json_cmd list" where
  "readFile a [] = []"
| "readFile a ((f, c) # entries) =
     \<lparr>ref = a, cmd_file = f, cmd_command = c\<rparr> # readFile (Suc a) entries"

text \<open>
  The loop over the entries of a database: an entry replaces the stored one when the
  stored object is not the very same object.
\<close>

fun merge_entries :: "string \<Rightarrow> json_cmd list \<Rightarrow> bool \<Rightarrow> CatkinWorkspace \<Rightarrow> bool \<times> CatkinWorkspace" where
  "merge_entries db_file [] change s = (change, s)"
| "merge_entries db_file (cmd # rest) change s =
     (if map_option ref (file_to_command s (cmd_file cmd)) \<noteq> Some (ref cmd)
      then merge_entries db_file rest True
             (s\<lparr>file_to_command := (file_to_command s)(cmd_file cmd \<mapsto> cmd),
                file_to_compile_commands := (file_to_compile_commands s)(cmd_file cmd \<mapsto> db_file)\<rparr>)
      else merge_entries db_file rest change s)"

text \<open>
  \<open>updateDatabase\<close>, run from start to end without interleaving. For a file that is gone,
  every key recorded for it leaves both maps, then the signal is dispatched.
\<close>

definition updateDatabase :: "host \<Rightarrow> string \<Rightarrow> CatkinWorkspace \<Rightarrow> bool \<times> CatkinWorkspace" where
  "updateDatabase h db_file s =
     (case db_files h db_file of
        None \<Rightarrow>
          (True,
           s\<lparr>file_to_command :=
                (\<lambda>f. if file_to_compile_commands s f = Some db_file then None
                      else file_to_command s f),
              file_to_compile_commands :=
                (\<lambda>f. if file_to_compile_commands s f = Some db_file then None
                      else file_to_compile_commands s f),
              build_commands_changed := Suc (build_commands_changed s)\<rparr>)
      | Some entries \<Rightarrow>
          (let db_part = readFile (heap_next s) entries;
               s1 = s\<lparr>heap_next := heap_next s + length entries,
                       compile_commands := (compile_commands s)(db_file \<mapsto> db_part)\<rparr>;
               (change, s2) = merge_entries db_file db_part False s1
           in if change
              then (change, s2\<lparr>build_commands_changed := Suc (build_commands_changed s2)\<rparr>)
              else (change, s2)))"

section \<open>Watching the build directory\<close>

definition stopWatching :: "string \<Rightarrow> CatkinWorkspace \<Rightarrow> CatkinWorkspace" where
  "stopWatching f s = (if f \<in> watchers s then s\<lparr>watchers := watchers s - {f}\<rparr> else s)"

text \<open>
  \<open>startWatchingCompileCommandsFile\<close> starts \<open>updateDatabase\<close> without waiting for it; the
  model runs the update to its end before the watcher is replaced.
\<close>

definition startWatchingCompileCommandsFile :: "host \<Rightarrow> string \<Rightarrow> CatkinWorkspace \<Rightarrow> CatkinWorkspace" where
  "startWatchingCompileCommandsFile h f s =
     (let s1 = snd (updateDatabase h f s);
          s2 = stopWatching f s1
      in s2\<lparr>watchers := insert f (watchers s2)\<rparr>)"

text \<open>
  The second warning of a scan, with the build item offered only when a build task
  exists. The source guards it with \<^verbatim>\<open>ask_trigger_build\<close>, which is true wherever the
  guard is reached: it starts as \<^verbatim>\<open>!db_found\<close> inside the branch for \<^verbatim>\<open>!db_found\<close>.
  Starting the build task and rewriting the catkin configuration act outside the
  workspace object and leave it as it is.
\<close>

definition ask_trigger_build :: "host \<Rightarrow> CatkinWorkspace \<Rightarrow> CatkinWorkspace" where
  "ask_trigger_build h s =
     (let items = [IgnoreThis] @ (if build_task_found h then [BuildWorkspace] else []);
          s1 = s\<lparr>warnings_shown := warnings_shown s @ [NoDatabaseFound]\<rparr>;
          result = showWarningMessage h NoDatabaseFound items
      in if result = Some IgnoreThis then s1\<lparr>ignore_missing_db := True\<rparr> else s1)"

text \<open>
  A scan of the build directory. Every database file the glob finds is read and
  watched; the watch callbacks themselves are later calls of \<open>updateDatabase\<close> and not
  part of the scan. With no database found and the ignore flag not set, the user is
  asked: first about the missing export setting, when the configured CMake arguments do
  not mention it, then about building.
\<close>

definition loadAndWatchCompileCommands ::
  "host \<Rightarrow> CatkinWorkspace \<Rightarrow> (error + unit) \<times> CatkinWorkspace" where
  "loadAndWatchCompileCommands h s =
     (case getBuildDir h of
        None \<Rightarrow> (Inr (), s\<lparr>errors_shown := Suc (errors_shown s)\<rparr>)
      | Some found_dir \<Rightarrow>
          (let s1 = (if build_dir_exists h
                     then fold (startWatchingCompileCommandsFile h) (glob_entries h)
                            (if build_dir s \<noteq> Some found_dir
                             then s\<lparr>build_dir := Some found_dir\<rparr> else s)
                     else s);
               db_found = (build_dir_exists h \<and> length (glob_entries h) \<noteq> 0)
           in if \<not> db_found \<and> \<not> ignore_missing_db s1 then
                (case additional_cmake_args h of
                   None \<Rightarrow> (Inl TypeError, s1)
                 | Some args \<Rightarrow>
                     if \<not> str_includes args ''CMAKE_EXPORT_COMPILE_COMMANDS'' then
                       (let s2 = s1\<lparr>warnings_shown := warnings_shown s1 @ [ExportNotEnabled]\<rparr>;
                            result = showWarningMessage h ExportNotEnabled
                                       [IgnoreThis, UpdateCatkinConfig]
                        in if result = Some IgnoreThis
                           then (Inr (), s2\<lparr>ignore_missing_db := True\<rparr>)
                           else (Inr (), ask_trigger_build h s2))
                     else (Inr (), ask_trigger_build h s1))
              else (Inr (), s1)))"

section \<open>Packages and the dependency graph\<close>

text \<open>The package map keeps insertion order: \<^verbatim>\<open>Map.set\<close> replaces in place or appends.\<close>

fun map_set :: "string \<Rightarrow> CatkinPackage \<Rightarrow> (string \<times> CatkinPackage) list \<Rightarrow> (string \<times> CatkinPackage) list" where
  "map_set k v [] = [(k, v)]"
| "map_set k v ((k', v') # m) = (if k' = k then (k, v) # m else (k', v') # map_set k v m)"

definition getPackage :: "CatkinWorkspace \<Rightarrow> string \<Rightarrow> CatkinPackage option" where
  "getPackage s nm = map_of (packages s) nm"

definition loadPackage :: "CatkinPackage option \<Rightarrow> CatkinWorkspace \<Rightarrow> CatkinWorkspace" where
  "loadPackage parsed s =
     (case parsed of
        None \<Rightarrow> s
      | Some catkin_package \<Rightarrow>
          s\<lparr>packages := map_set (name catkin_package) catkin_package (packages s)\<rparr>)"

definition push_dependee :: "string \<Rightarrow> string \<Rightarrow> CatkinWorkspace \<Rightarrow> CatkinWorkspace" where
  "push_dependee dependee depency s =
     (case getPackage s depency of
        None \<Rightarrow> s
      | Some pkg \<Rightarrow>
          s\<lparr>packages := map_set depency (pkg\<lparr>dependees := dependees pkg @ [dependee]\<rparr>) (packages s)\<rparr>)"

definition buildDependencyGraph :: "CatkinWorkspace \<Rightarrow> CatkinWorkspace" where
  "buildDependencyGraph s =
     fold (\<lambda>entry. fold (push_dependee (name (snd entry))) (dependencies (snd entry)))
       (packages s) s"

text \<open>
  The queue loop of \<open>iterateDependentPackages\<close>. The callback may have a state of its
  own, which it gets and returns; \<open>checked_pkgs\<close> is the set of names met so far and
  \<open>unchecked_pkgs\<close> the queue.
\<close>

function dependents_loop ::
  "CatkinWorkspace \<Rightarrow> (CatkinPackage \<Rightarrow> 'st \<Rightarrow> bool \<times> 'st) \<Rightarrow> string set \<Rightarrow> string list \<Rightarrow> 'st
     \<Rightarrow> bool \<times> 'st" where
  "dependents_loop s async_filter checked_pkgs [] st = (False, st)"
| "dependents_loop s async_filter checked_pkgs (dep_name # unchecked_pkgs) st =
     (if dep_name \<notin> checked_pkgs then
        (case getPackage s dep_name of
           None \<Rightarrow> dependents_loop s async_filter (insert dep_name checked_pkgs) unchecked_pkgs st
         | Some dependency \<Rightarrow>
             (case async_filter dependency st of
                (True, st') \<Rightarrow> (True, st')
              | (False, st') \<Rightarrow>
                  dependents_loop s async_filter (insert dep_name checked_pkgs)
                    (unchecked_pkgs @ dependees dependency) st'))
      else dependents_loop s async_filter checked_pkgs unchecked_pkgs st)"
  by pat_completeness auto

termination dependents_loop
proof -
  have never_grows: "length (filter (\<lambda>p. fst p \<notin> insert k c) ps) \<le> length (filter (\<lambda>p. fst p \<notin> c) ps)"
    for k :: string and c and ps :: "(string \<times> CatkinPackage) list"
    by (induction ps) auto
  have shrinks: "length (filter (\<lambda>p. fst p \<notin> insert k c) ps) < length (filter (\<lambda>p. fst p \<notin> c) ps)"
    if "map_of ps k = Some v" and "k \<notin> c"
    for k :: string and c v and ps :: "(string \<times> CatkinPackage) list"
    using that
  proof (induction ps)
    case Nil
    then show ?case by simp
  next
    case (Cons p ps)
    show ?case
    proof (cases "fst p = k")
      case True
      with Cons.prems never_grows [of k c ps] show ?thesis by (simp add: less_Suc_eq_le)
    next
      case False
      with Cons show ?thesis by (cases p) (auto split: if_splits)
    qed
  qed
  show ?thesis
  proof (relation "measures [\<lambda>(s, f, c, q, st). length (filter (\<lambda>p. fst p \<notin> c) (packages s)),
                             \<lambda>(s, f, c, q, st). length q]", goal_cases)
    case 1
    then show ?case by simp
  next
    case 2
    then show ?case using never_grows by (auto simp: le_less)
  next
    case 3
    then show ?case using shrinks by (auto simp: getPackage_def)
  next
    case 4
    then show ?case by simp
  qed
qed

definition iterateDependentPackages ::
  "CatkinWorkspace \<Rightarrow> CatkinPackage \<Rightarrow> (CatkinPackage \<Rightarrow> 'st \<Rightarrow> bool \<times> 'st) \<Rightarrow> 'st \<Rightarrow> bool \<times> 'st" where
  "iterateDependentPackages s catkin_package async_filter st =
     dependents_loop s async_filter {} ([] @ dependees catkin_package) st"

section \<open>Reload\<close>

text \<open>
  The part of \<open>reload\<close> that acts on the workspace object: the caches are cleared, the
  build-commands signal is dispatched, the build directory is scanned, the packages
  found are loaded and the dependency graph is built. The only exception a scan raises
  here is the TypeError of an absent configuration entry; the handler of \<open>reload\<close> then
  builds its message from \<^verbatim>\<open>error.error.message\<close>, which raises again before any message
  is shown, and the reload ends there with the workspace as the scan left it. Refreshing
  the catkin configuration and reporting progress are outside the workspace object.
\<close>

definition reload :: "host \<Rightarrow> CatkinWorkspace \<Rightarrow> CatkinWorkspace" where
  "reload h s =
     (let s1 = s\<lparr>watchers := {}, compile_commands := Map.empty, file_to_command := Map.empty,
                 file_to_compile_commands := Map.empty, system_include_browse_paths := [],
                 default_system_include_paths := [], packages := [],
                 build_commands_changed := Suc (build_commands_changed s)\<rparr>
      in case loadAndWatchCompileCommands h s1 of
           (Inl e, s2) \<Rightarrow> s2
         | (Inr u, s2) \<Rightarrow>
             (buildDependencyGraph (fold loadPackage (package_descriptors h) s2))
               \<lparr>is_initialized := True\<rparr>)"

section \<open>Example inputs\<close>

text \<open>
  A workspace rooted at \<^verbatim>\<open>/ws\<close> with one package \<^verbatim>\<open>a\<close>: its compile database, with
  the one entry of the end-to-end scenario; a second database that lists the same
  source file; the verbose output of \<^verbatim>\<open>g++\<close>; and a host made of them, whose user
  answers every warning with the ignore item.
\<close>

definition example_db :: string where
  "example_db = ''/ws/build/a/compile_commands.json''"

definition other_db :: string where
  "other_db = ''/ws/build/b/compile_commands.json''"

definition example_entry :: "string \<times> string" where
  "example_entry = (''/ws/src/a/a.cpp'',
     ''/usr/bin/g++ -I/ws/src/a/include -isystem /usr/include -DDEBUG=1 a.cpp'')"

definition other_entry :: "string \<times> string" where
  "other_entry = (''/ws/src/a/a.cpp'', ''/usr/bin/g++ -I/ws/src/b/include a.cpp'')"

definition gcc_verbose_output :: string where
  "gcc_verbose_output =
     ''#include <...> starts here:'' @ [CHR 0x0A] @ '' /usr/local/include'' @ [CHR 0x0A]
       @ ''End of search list.'' @ [CHR 0x0A]"

definition example_host :: host where
  "example_host = \<lparr>
     execSync = (\<lambda>c. if c = ''/usr/bin/g++ -xc++ -E -v /dev/null -o /dev/null 2>&1''
                      then Exit0 gcc_verbose_output else Failed []),
     workspaceFolders = [''/ws''], cppStandard = ''c++17'', intelliSenseMode = ''gcc-x64'',
     db_files = [example_db \<mapsto> [example_entry], other_db \<mapsto> [other_entry]],
     getBuildDir = Some ''/ws/build'', build_dir_exists = True, glob_entries = [],
     additional_cmake_args = Some [], showWarningMessage = (\<lambda>p offered. Some IgnoreThis),
     build_task_found = False, package_descriptors = [] \<rparr>"

text \<open>The same host after the first database has been deleted from disk.\<close>

definition host_after_removal :: host where
  "host_after_removal = example_host\<lparr>db_files := [other_db \<mapsto> [other_entry]]\<rparr>"

text \<open>The workspace after the first database, then the second, have been read.\<close>

definition two_databases_read :: CatkinWorkspace where
  "two_databases_read =
     snd (updateDatabase example_host other_db
            (snd (updateDatabase example_host example_db fresh_workspace)))"

section \<open>Auxiliary predicates\<close>

text \<open>The object stored for a source file has its address in the range from \<open>a\<close> up to \<open>b\<close>.\<close>

definition stored_in :: "nat \<Rightarrow> nat \<Rightarrow> CatkinWorkspace \<Rightarrow> string \<Rightarrow> bool" where
  "stored_in a b s f =
     (case file_to_command s f of None \<Rightarrow> False | Some ob \<Rightarrow> a \<le> ref ob \<and> ref ob < b)"

text \<open>Two workspace states agree on the ignore flag and on the warnings shown so far.\<close>

definition same_prompts :: "CatkinWorkspace \<Rightarrow> CatkinWorkspace \<Rightarrow> bool" where
  "same_prompts s s' =
     (ignore_missing_db s' = ignore_missing_db s \<and> warnings_shown s' = warnings_shown s)"

text \<open>
  What every run of the option loop keeps: the shell log and the default paths, and the
  paths already on the browse list; when the run returns, the paths it put on the browse
  list are on its include list, and the include list has only grown.
\<close>

definition scan_ok :: "scan \<Rightarrow> CatkinWorkspace \<Rightarrow> (error + scan) \<times> CatkinWorkspace \<Rightarrow> bool" where
  "scan_ok v s R =
     (exec_log (snd R) = exec_log s
      \<and> default_system_include_paths (snd R) = default_system_include_paths s
      \<and> set (system_include_browse_paths s) \<subseteq> set (system_include_browse_paths (snd R))
      \<and> (case fst R of
           Inl e \<Rightarrow> True
         | Inr v' \<Rightarrow>
             set (system_include_browse_paths (snd R))
               \<subseteq> set (system_include_browse_paths s) \<union> set (includePaths v')
             \<and> set (includePaths v) \<subseteq> set (includePaths v')))"

text \<open>
  The record of the end-to-end scenario, a record of an earlier parse with an include
  path outside the workspace, one for another compiler, and one whose command ends with
  the option \<^verbatim>\<open>-isystem\<close>.
\<close>

definition example_record :: json_cmd where
  "example_record = \<lparr>ref = 0, cmd_file = fst example_entry, cmd_command = snd example_entry\<rparr>"

definition earlier_record :: json_cmd where
  "earlier_record = \<lparr>ref = 1, cmd_file = ''/ws/src/b/b.cpp'',
     cmd_command = ''/usr/bin/g++ -I/opt/ros/include b.cpp''\<rparr>"

definition clang_record :: json_cmd where
  "clang_record = \<lparr>ref = 2, cmd_file = ''/ws/src/c/c.cpp'',
     cmd_command = ''/usr/bin/clang++ -DNDEBUG c.cpp''\<rparr>"

definition trailing_isystem_record :: json_cmd where
  "trailing_isystem_record = \<lparr>ref = 3, cmd_file = ''/ws/src/d/d.cpp'',
     cmd_command = ''/usr/bin/g++ -isystem''\<rparr>"

definition doubled_isystem_record :: json_cmd where
  "doubled_isystem_record = \<lparr>ref = 4, cmd_file = ''/ws/src/d/d.cpp'',
     cmd_command = ''/usr/bin/g++ -isystem -isystem''\<rparr>"

text \<open>The example host with no workspace folder open.\<close>

definition folderless_host :: host where
  "folderless_host = example_host\<lparr>workspaceFolders := []\<rparr>"

text \<open>The workspace after the record of the scenario has been parsed once.\<close>

definition after_first_parse :: CatkinWorkspace where
  "after_first_parse = snd (getSourceFileConfiguration example_host example_record fresh_workspace)"

section \<open>The traversal as the specification words it\<close>

text \<open>
  The callback run over a list of packages, in order, until it answers true: the answer
  is true at the first package it accepts, with nothing run after it, and false when the
  list is used up.
\<close>

fun run_until :: "(CatkinPackage \<Rightarrow> 'st \<Rightarrow> bool \<times> 'st) \<Rightarrow> CatkinPackage list \<Rightarrow> 'st \<Rightarrow> bool \<times> 'st" where
  "run_until visit [] st = (False, st)"
| "run_until visit (p # ps) st =
     (case visit p st of
        (True, st') \<Rightarrow> (True, st')
      | (False, st') \<Rightarrow> run_until visit ps st')"

text \<open>
  The order in which a traversal that is never stopped meets the packages, from a
  seen-set and a queue: each entry is the name taken from the queue and the package it
  resolves to.
\<close>

function visit_order ::
  "CatkinWorkspace \<Rightarrow> string set \<Rightarrow> string list \<Rightarrow> (string \<times> CatkinPackage) list" where
  "visit_order s seen [] = []"
| "visit_order s seen (n # queue) =
     (if n \<notin> seen then
        (case getPackage s n of
           None \<Rightarrow> visit_order s (insert n seen) queue
         | Some p \<Rightarrow> (n, p) # visit_order s (insert n seen) (queue @ dependees p))
      else visit_order s seen queue)"
  by pat_completeness auto

termination visit_order
proof -
  have never_grows: "length (filter (\<lambda>p. fst p \<notin> insert k c) ps) \<le> length (filter (\<lambda>p. fst p \<notin> c) ps)"
    for k :: string and c and ps :: "(string \<times> CatkinPackage) list"
    by (induction ps) auto
  have shrinks: "length (filter (\<lambda>p. fst p \<notin> insert k c) ps) < length (filter (\<lambda>p. fst p \<notin> c) ps)"
    if "map_of ps k = Some v" and "k \<notin> c"
    for k :: string and c v and ps :: "(string \<times> CatkinPackage) list"
    using that
  proof (induction ps)
    case Nil
    then show ?case by simp
  next
    case (Cons p ps)
    show ?case
    proof (cases "fst p = k")
      case True
      with Cons.prems never_grows [of k c ps] show ?thesis by (simp add: less_Suc_eq_le)
    next
      case False
      with Cons show ?thesis by (cases p) (auto split: if_splits)
    qed
  qed
  show ?thesis
  proof (relation "measures [\<lambda>(s, c, q). length (filter (\<lambda>p. fst p \<notin> c) (packages s)),
                             \<lambda>(s, c, q). length q]", goal_cases)
    case 1
    then show ?case by simp
  next
    case 2
    then show ?case using never_grows by (auto simp: le_less)
  next
    case 3
    then show ?case using shrinks by (auto simp: getPackage_def)
  next
    case 4
    then show ?case by simp
  qed
qed

text \<open>
  One breadth level: the names of a frontier are taken in order against the seen-set. A
  name already seen is passed over; a new name is marked seen, and when it resolves to a
  package, that package is visited and its dependees go to the next level. The result is
  the seen-set afterwards, the packages visited and the next frontier.
\<close>

fun level_scan ::
  "CatkinWorkspace \<Rightarrow> string set \<Rightarrow> string list
     \<Rightarrow> string set \<times> (string \<times> CatkinPackage) list \<times> string list" where
  "level_scan s seen [] = (seen, [], [])"
| "level_scan s seen (n # frontier) =
     (if n \<in> seen then level_scan s seen frontier
      else case getPackage s n of
             None \<Rightarrow> level_scan s (insert n seen) frontier
           | Some p \<Rightarrow>
               (case level_scan s (insert n seen) frontier of
                  (seen', visited, next_level) \<Rightarrow>
                    (seen', (n, p) # visited, dependees p @ next_level)))"

text \<open>
  The packages \<open>A \<leftarrow> B \<leftarrow> C\<close> and \<open>A \<leftarrow> D\<close>, loaded by a reload from their descriptors;
  \<open>D\<close> also names a dependency that is no package of the workspace.
\<close>

definition descriptor :: "string \<Rightarrow> string list \<Rightarrow> CatkinPackage option" where
  "descriptor n deps = Some \<lparr>name = n, dependencies = deps, dependees = []\<rparr>"

definition example_graph :: CatkinWorkspace where
  "example_graph =
     reload (example_host\<lparr>package_descriptors :=
               [descriptor ''A'' [], descriptor ''B'' [''A''], descriptor ''C'' [''B''],
                descriptor ''D'' [''A'', ''X'']]\<rparr>)
       fresh_workspace"

definition package_A :: CatkinPackage where
  "package_A = \<lparr>name = ''A'', dependencies = [], dependees = [''B'', ''D'']\<rparr>"

section \<open>Where the option loop reads past the end\<close>

text \<open>
  The option loop consumes its tokens from left to right: a token \<^verbatim>\<open>-isystem\<close> takes
  the token after it as its path, and every other token is consumed alone. The loop
  reads past the end exactly when it arrives at a token \<^verbatim>\<open>-isystem\<close> with no token after
  it, that is, when the last token is \<^verbatim>\<open>-isystem\<close> and is not itself the path of a
  \<^verbatim>\<open>-isystem\<close> before it.
\<close>

fun reads_past_end :: "string list \<Rightarrow> bool" where
  "reads_past_end [] = False"
| "reads_past_end (opt # rest) =
     (if opt = ''-isystem''
      then (case rest of [] \<Rightarrow> True | p # rest' \<Rightarrow> reads_past_end rest')
      else reads_past_end rest)"

text \<open>A record with a complete \<^verbatim>\<open>-isystem\<close> option before the trailing one.\<close>

definition second_isystem_record :: json_cmd where
  "second_isystem_record = \<lparr>ref = 5, cmd_file = ''/ws/src/d/d.cpp'',
     cmd_command = ''/usr/bin/g++ -isystem /usr/include -isystem''\<rparr>"

section \<open>Properties of the string primitives\<close>

text \<open>\<open>str_split\<close> always gives at least one piece, so the first token of a command exists.\<close>

lemma split_from_nonempty: "split_from sep piece s \<noteq> []"
  by (induction sep piece s rule: split_from.induct) auto

lemma str_split_nonempty: "str_split s sep \<noteq> []"
  by (simp add: str_split_def split_from_nonempty)

section \<open>Properties of the compiler-defaults resolver\<close>

lemma parseCompilerDefaults_reset:
  "parseCompilerDefaults h c args (s\<lparr>default_system_include_paths := []\<rparr>)
     = parseCompilerDefaults h c args s"
  by simp

lemma basename_ccache: "last (str_split ''ccache'' ''/'') = ''ccache''"
  by (simp add: str_split_def startsWith_def)

text \<open>
  A compiler whose base name contains \<^verbatim>\<open>ccache\<close>, called with at least one further
  argument, ends with the outcome, the default paths and the shell commands of the
  resolution for that argument as the compiler and the arguments after it.
\<close>

lemma wrapper_defers:
  assumes "str_includes (last (str_split c ''/'')) ''ccache''"
  shows "default_system_include_paths (snd (parseCompilerDefaults h c (a # rest) s))
           = default_system_include_paths (snd (parseCompilerDefaults h a rest s))
       \<and> fst (parseCompilerDefaults h c (a # rest) s) = fst (parseCompilerDefaults h a rest s)
       \<and> exec_log (snd (parseCompilerDefaults h c (a # rest) s))
           = exec_log (snd (parseCompilerDefaults h a rest s))"
proof -
  have not_nvcc: "last (str_split c ''/'') \<noteq> ''nvcc''"
    using assms by (auto simp: startsWith_def)
  let ?inner = "parseCompilerDefaults h a rest s"
  have step: "parseCompilerDefaults h c (a # rest) s =
      (case fst ?inner of
         Inl e \<Rightarrow> (Inl e, snd ?inner)
       | Inr u \<Rightarrow> (Inr (), (snd ?inner)\<lparr>system_paths_changed :=
                                 Suc (system_paths_changed (snd ?inner))\<rparr>))"
    using assms not_nvcc
    by (subst parseCompilerDefaults.simps)
       (simp add: Let_def parseCompilerDefaults_reset del: parseCompilerDefaults.simps
             cong: sum.case_cong)
  show ?thesis
    unfolding step by (cases "fst ?inner") (simp_all del: parseCompilerDefaults.simps)
qed

text \<open>
  C7. Resolving the defaults for the compiler path \<^verbatim>\<open>ccache\<close> with the remaining
  arguments \<^verbatim>\<open>[g++, -std=c++17]\<close> gives the default paths (and the outcome) of resolving
  \<^verbatim>\<open>g++\<close> with \<^verbatim>\<open>[-std=c++17]\<close>, whatever the host and the workspace state; with no
  remaining argument it ends normally with the empty list of default paths (and one
  dispatch of the system-paths signal).
\<close>

theorem ccache_resolves_as_wrapped_compiler:
  "default_system_include_paths
      (snd (parseCompilerDefaults h ''ccache'' [''g++'', ''-std=c++17''] s))
     = default_system_include_paths (snd (parseCompilerDefaults h ''g++'' [''-std=c++17''] s))
   \<and> fst (parseCompilerDefaults h ''ccache'' [''g++'', ''-std=c++17''] s)
     = fst (parseCompilerDefaults h ''g++'' [''-std=c++17''] s)
   \<and> parseCompilerDefaults h ''ccache'' [] s
     = (Inr (), s\<lparr>default_system_include_paths := [],
                    system_paths_changed := Suc (system_paths_changed s)\<rparr>)"
proof -
  have wrapper: "str_includes (last (str_split ''ccache'' ''/'')) ''ccache''"
    by (simp add: basename_ccache startsWith_def)
  have not_nvcc: "last (str_split ''ccache'' ''/'') \<noteq> ''nvcc''"
    by (simp add: basename_ccache)
  have no_args: "parseCompilerDefaults h ''ccache'' [] s
     = (Inr (), s\<lparr>default_system_include_paths := [],
                    system_paths_changed := Suc (system_paths_changed s)\<rparr>)"
    using wrapper not_nvcc
    by (subst parseCompilerDefaults.simps) (simp add: Let_def del: parseCompilerDefaults.simps)
  show ?thesis
    using wrapper_defers [OF wrapper, of h "''g++''" "[''-std=c++17'']" s] no_args
    by (simp del: parseCompilerDefaults.simps)
qed

lemma exec_log_Nvcc:
  "exec_log (parseCompilerDefaultsNvcc h c s) = exec_log s @ [c @ '' --dryrun -v /dev/null 1>&2'']"
  by (simp add: parseCompilerDefaultsNvcc_def Let_def split: exec_result.splits)

lemma exec_log_Cpp:
  "exec_log (snd (parseCompilerDefaultsCpp h c s))
     = exec_log s @ [c @ '' -xc++ -E -v /dev/null -o /dev/null 2>&1'']"
  by (simp add: parseCompilerDefaultsCpp_def Let_def split: exec_result.splits)

lemma exec_log_signal:
  "exec_log (snd (case fst r of Inl e \<Rightarrow> (Inl e, snd r)
       | Inr u \<Rightarrow> (Inr (), (snd r)\<lparr>system_paths_changed := n\<rparr>))) = exec_log (snd r)"
  by (cases "fst r") simp_all

lemma nvcc_exec_log:
  assumes "last (str_split c ''/'') = ''nvcc''"
  shows "exec_log (snd (parseCompilerDefaults h c args s))
           = exec_log s @ [c @ '' --dryrun -v /dev/null 1>&2'',
                           c @ '' -xc++ -E -v /dev/null -o /dev/null 2>&1'']"
proof -
  have no_wrapper: "\<not> str_includes ''nvcc'' ''ccache''"
    by (simp add: startsWith_def)
  have "parseCompilerDefaults h c args s =
     (let r = parseCompilerDefaultsCpp h c
                (parseCompilerDefaultsNvcc h c (s\<lparr>default_system_include_paths := []\<rparr>))
      in case fst r of Inl e \<Rightarrow> (Inl e, snd r)
         | Inr u \<Rightarrow> (Inr (), (snd r)\<lparr>system_paths_changed := Suc (system_paths_changed (snd r))\<rparr>))"
    using assms no_wrapper
    by (subst parseCompilerDefaults.simps) (simp add: Let_def del: parseCompilerDefaults.simps str_includes.simps)
  then show ?thesis
    by (simp add: Let_def exec_log_signal exec_log_Cpp exec_log_Nvcc del: parseCompilerDefaults.simps)
qed

text \<open>
  A compiler whose base name is not \<^verbatim>\<open>nvcc\<close> and holds no \<^verbatim>\<open>ccache\<close> runs the generic
  resolver and nothing else.
\<close>

lemma plain_compiler_exec_log:
  assumes "last (str_split c ''/'') \<noteq> ''nvcc''"
    and "\<not> str_includes (last (str_split c ''/'')) ''ccache''"
  shows "exec_log (snd (parseCompilerDefaults h c args s))
           = exec_log s @ [c @ '' -xc++ -E -v /dev/null -o /dev/null 2>&1'']"
proof -
  have "parseCompilerDefaults h c args s =
     (let r = parseCompilerDefaultsCpp h c (s\<lparr>default_system_include_paths := []\<rparr>)
      in case fst r of Inl e \<Rightarrow> (Inl e, snd r)
         | Inr u \<Rightarrow> (Inr (), (snd r)\<lparr>system_paths_changed := Suc (system_paths_changed (snd r))\<rparr>))"
    using assms
    by (subst parseCompilerDefaults.simps) (simp add: Let_def del: parseCompilerDefaults.simps)
  then show ?thesis
    by (simp add: Let_def exec_log_signal exec_log_Cpp del: parseCompilerDefaults.simps)
qed

text \<open>
  C2. For the compiler path \<^verbatim>\<open>/usr/local/cuda/bin/nvcc\<close> one resolution runs two
  strategies: the GPU resolver's dry run and then the generic resolver's preprocessor
  run, whatever the host, the remaining arguments and the workspace state.
\<close>

theorem nvcc_runs_two_resolvers:
  "exec_log (snd (parseCompilerDefaults h ''/usr/local/cuda/bin/nvcc'' args s))
     = exec_log s @ [''/usr/local/cuda/bin/nvcc --dryrun -v /dev/null 1>&2'',
                     ''/usr/local/cuda/bin/nvcc -xc++ -E -v /dev/null -o /dev/null 2>&1'']"
proof -
  have "last (str_split ''/usr/local/cuda/bin/nvcc'' ''/'') = ''nvcc''"
    by (simp add: str_split_def startsWith_def)
  from nvcc_exec_log [OF this, of h args s] show ?thesis by simp
qed

section \<open>Re-reading a database\<close>

lemma readFile_refs:
  "cmd \<in> set (readFile a entries) \<Longrightarrow> a \<le> ref cmd \<and> ref cmd < a + length entries"
proof (induction a entries arbitrary: cmd rule: readFile.induct)
  case (1 a)
  then show ?case by simp
next
  case (2 a f c entries)
  show ?case
  proof (cases "cmd \<in> set (readFile (Suc a) entries)")
    case True
    from "2.IH" [OF True] show ?thesis by simp
  next
    case False
    with "2.prems" show ?thesis by simp
  qed
qed

lemma readFile_nonempty: "entries \<noteq> [] \<Longrightarrow> readFile a entries \<noteq> []"
  by (cases entries) auto

lemma merge_entries_changed: "fst (merge_entries db cmds True s) = True"
  by (induction cmds arbitrary: s) auto

lemma merge_entries_keeps_range:
  "stored_in a b s f \<Longrightarrow> list_all (\<lambda>cmd. a \<le> ref cmd \<and> ref cmd < b) cmds \<Longrightarrow>
   stored_in a b (snd (merge_entries db cmds ch s)) f"
  by (induction cmds arbitrary: s ch) (auto simp: stored_in_def)

lemma merge_entries_head_in_range:
  assumes "list_all (\<lambda>cmd. a \<le> ref cmd \<and> ref cmd < b) (cmd # cmds)"
  shows "stored_in a b (snd (merge_entries db (cmd # cmds) ch s)) (cmd_file cmd)"
proof -
  have rest: "list_all (\<lambda>cmd. a \<le> ref cmd \<and> ref cmd < b) cmds" and hd: "a \<le> ref cmd" "ref cmd < b"
    using assms by simp_all
  show ?thesis
  proof (cases "map_option ref (file_to_command s (cmd_file cmd)) \<noteq> Some (ref cmd)")
    case True
    let ?s' = "s\<lparr>file_to_command := (file_to_command s)(cmd_file cmd \<mapsto> cmd),
                  file_to_compile_commands := (file_to_compile_commands s)(cmd_file cmd \<mapsto> db)\<rparr>"
    have "stored_in a b ?s' (cmd_file cmd)"
      using hd by (simp add: stored_in_def)
    from merge_entries_keeps_range [OF this rest, of db True] True show ?thesis
      by simp
  next
    case False
    then have "stored_in a b s (cmd_file cmd)"
      using hd by (auto simp: stored_in_def split: option.splits)
    with False show ?thesis
      by (simp add: merge_entries_keeps_range [OF _ rest])
  qed
qed

lemma merge_entries_head_differs:
  "map_option ref (file_to_command s (cmd_file cmd)) \<noteq> Some (ref cmd) \<Longrightarrow>
   fst (merge_entries db (cmd # cmds) ch s) = True"
  by (simp add: merge_entries_changed)

lemma updateDatabase_existing:
  assumes "db_files h db = Some entries"
  shows "updateDatabase h db s =
     (let r = merge_entries db (readFile (heap_next s) entries) False
                (s\<lparr>heap_next := heap_next s + length entries,
                    compile_commands := (compile_commands s)(db \<mapsto> readFile (heap_next s) entries)\<rparr>)
      in if fst r then (True, (snd r)\<lparr>build_commands_changed := Suc (build_commands_changed (snd r))\<rparr>)
         else (False, snd r))"
  using assms by (simp add: updateDatabase_def Let_def split: prod.splits)

lemma merge_entries_heap_next: "heap_next (snd (merge_entries db cmds ch s)) = heap_next s"
  by (induction cmds arbitrary: s ch) auto

lemma merge_entries_signal:
  "build_commands_changed (snd (merge_entries db cmds ch s)) = build_commands_changed s"
  by (induction cmds arbitrary: s ch) auto

text \<open>
  C1. For a database file that exists with at least one entry and does not change, the
  second of two calls of \<open>updateDatabase\<close> in a row returns \<open>True\<close> and dispatches the
  build-commands signal once more: the entries of the second read are new objects, and
  none is the object stored by the first read.
\<close>

theorem updateDatabase_twice_signals_again:
  assumes ex: "db_files h db = Some entries" and ne: "entries \<noteq> []"
  shows "fst (updateDatabase h db (snd (updateDatabase h db s))) = True
       \<and> build_commands_changed (snd (updateDatabase h db (snd (updateDatabase h db s))))
           = Suc (build_commands_changed (snd (updateDatabase h db s)))"
proof -
  let ?n = "length entries"
  let ?a = "heap_next s"
  let ?s1 = "snd (updateDatabase h db s)"
  obtain e rest where entries: "entries = e # rest"
    using ne by (cases entries) auto
  obtain f c where e: "e = (f, c)" by (cases e)
  let ?first = "readFile ?a entries"
  have range1: "list_all (\<lambda>cmd. ?a \<le> ref cmd \<and> ref cmd < ?a + ?n) ?first"
    using readFile_refs by (auto simp: list_all_iff)
  have first_shape: "?first = \<lparr>ref = ?a, cmd_file = f, cmd_command = c\<rparr> # readFile (Suc ?a) rest"
    by (simp add: entries e)
  have stored1: "stored_in ?a (?a + ?n) ?s1 f"
  proof -
    let ?m = "merge_entries db ?first False
                (s\<lparr>heap_next := ?a + ?n, compile_commands := (compile_commands s)(db \<mapsto> ?first)\<rparr>)"
    let ?c0 = "\<lparr>ref = ?a, cmd_file = f, cmd_command = c\<rparr>"
    have "list_all (\<lambda>cmd. ?a \<le> ref cmd \<and> ref cmd < ?a + ?n) (?c0 # readFile (Suc ?a) rest)"
      using range1 unfolding first_shape .
    from merge_entries_head_in_range [OF this]
    have "stored_in ?a (?a + ?n) (snd ?m) (cmd_file ?c0)"
      unfolding first_shape .
    then have "stored_in ?a (?a + ?n) (snd ?m) f"
      by simp
    then show ?thesis
      by (simp add: updateDatabase_existing [OF ex] Let_def stored_in_def del: merge_entries.simps)
  qed
  have next1: "heap_next ?s1 = ?a + ?n"
    by (simp add: updateDatabase_existing [OF ex] Let_def merge_entries_heap_next)
  let ?second = "readFile (heap_next ?s1) entries"
  let ?s1' = "?s1\<lparr>heap_next := heap_next ?s1 + ?n,
                    compile_commands := (compile_commands ?s1)(db \<mapsto> ?second)\<rparr>"
  have second_shape: "?second = \<lparr>ref = ?a + ?n, cmd_file = f, cmd_command = c\<rparr> # readFile (Suc (?a + ?n)) rest"
    by (simp add: entries e next1)
  have differs: "map_option ref (file_to_command ?s1' f) \<noteq> Some (?a + ?n)"
    using stored1 by (auto simp: stored_in_def split: option.splits)
  have changed: "fst (merge_entries db ?second False ?s1') = True"
    unfolding second_shape using differs by (simp add: merge_entries_changed)
  show ?thesis
    using changed
    by (simp add: updateDatabase_existing [OF ex, of "?s1"] Let_def merge_entries_signal
             del: merge_entries.simps)
qed

theorem updateDatabase_twice_signals_again_witness:
  "db_files example_host example_db = Some [example_entry] \<and> [example_entry] \<noteq> []
   \<and> fst (updateDatabase example_host example_db
             (snd (updateDatabase example_host example_db fresh_workspace))) = True
   \<and> build_commands_changed (snd (updateDatabase example_host example_db
             (snd (updateDatabase example_host example_db fresh_workspace)))) = 2"
proof -
  have ex: "db_files example_host example_db = Some [example_entry]"
    by (simp add: example_host_def example_db_def other_db_def)
  have ne: "[example_entry] \<noteq> []"
    by simp
  have first: "build_commands_changed (snd (updateDatabase example_host example_db fresh_workspace)) = 1"
    by (simp add: updateDatabase_existing [OF ex] Let_def example_entry_def fresh_workspace_def)
  from updateDatabase_twice_signals_again [OF ex ne, of fresh_workspace] ex ne first
  show ?thesis by simp
qed

section \<open>Removal of a database file\<close>

text \<open>
  C3 (as amended). When \<open>updateDatabase\<close> is called for a file that is no longer on
  disk, it returns \<open>True\<close>; a source file leaves both maps exactly when its recorded
  origin is that file, and every other source file keeps its record and its origin;
  the build-commands signal is dispatched once in every case.
\<close>

theorem updateDatabase_missing_file:
  assumes "db_files h db_file = None"
  shows "fst (updateDatabase h db_file s) = True
       \<and> file_to_command (snd (updateDatabase h db_file s)) f
           = (if file_to_compile_commands s f = Some db_file then None else file_to_command s f)
       \<and> file_to_compile_commands (snd (updateDatabase h db_file s)) f
           = (if file_to_compile_commands s f = Some db_file then None
              else file_to_compile_commands s f)
       \<and> build_commands_changed (snd (updateDatabase h db_file s))
           = Suc (build_commands_changed s)"
  using assms by (simp add: updateDatabase_def)

lemma two_databases_read_origin:
  "file_to_compile_commands two_databases_read ''/ws/src/a/a.cpp'' = Some other_db
   \<and> map_option cmd_command (file_to_command two_databases_read ''/ws/src/a/a.cpp'')
       = Some (snd other_entry)"
  by (simp add: two_databases_read_def updateDatabase_def example_host_def example_db_def
        other_db_def example_entry_def other_entry_def fresh_workspace_def)

text \<open>
  The source file \<^verbatim>\<open>a.cpp\<close> is listed by both databases and the second one read owns
  it; deleting the first database leaves that record in place.
\<close>

theorem updateDatabase_missing_file_witness:
  "db_files host_after_removal example_db = None
   \<and> fst (updateDatabase host_after_removal example_db two_databases_read) = True
   \<and> map_option cmd_command
        (file_to_command (snd (updateDatabase host_after_removal example_db two_databases_read))
           ''/ws/src/a/a.cpp'') = Some (snd other_entry)
   \<and> file_to_compile_commands
        (snd (updateDatabase host_after_removal example_db two_databases_read))
        ''/ws/src/a/a.cpp'' = Some other_db"
proof -
  have gone: "db_files host_after_removal example_db = None"
    by (simp add: host_after_removal_def example_host_def example_db_def other_db_def)
  have differ: "other_db \<noteq> example_db"
    by (simp add: example_db_def other_db_def)
  from updateDatabase_missing_file [OF gone, of two_databases_read "''/ws/src/a/a.cpp''"]
       two_databases_read_origin gone differ
  show ?thesis by simp
qed

text \<open>
  With nothing recorded for the missing file, no record is removed and the signal is
  dispatched all the same.
\<close>

theorem missing_file_signal_counterexample:
  "db_files host_after_removal example_db = None
   \<and> file_to_command (snd (updateDatabase host_after_removal example_db fresh_workspace))
       = file_to_command fresh_workspace
   \<and> file_to_compile_commands (snd (updateDatabase host_after_removal example_db fresh_workspace))
       = file_to_compile_commands fresh_workspace
   \<and> build_commands_changed (snd (updateDatabase host_after_removal example_db fresh_workspace))
       = Suc (build_commands_changed fresh_workspace)"
  by (simp add: updateDatabase_def host_after_removal_def example_host_def example_db_def
        other_db_def fresh_workspace_def)

section \<open>The ignore choice for a missing database\<close>

lemma same_prompts_refl: "same_prompts s s"
  by (simp add: same_prompts_def)

lemma same_prompts_trans: "same_prompts s t \<Longrightarrow> same_prompts t u \<Longrightarrow> same_prompts s u"
  by (simp add: same_prompts_def)

lemma same_prompts_fold:
  assumes "\<And>x t. same_prompts t (step x t)"
  shows "same_prompts s (fold step xs s)"
proof (induction xs arbitrary: s)
  case Nil
  show ?case by (simp add: same_prompts_refl)
next
  case (Cons x xs)
  have "same_prompts s (step x s)" by (rule assms)
  moreover have "same_prompts (step x s) (fold step xs (step x s))" by (rule Cons.IH)
  ultimately show ?case by (simp add: same_prompts_trans [of s "step x s"])
qed

lemma merge_entries_prompts: "same_prompts s (snd (merge_entries db cmds ch s))"
proof (induction cmds arbitrary: s ch)
  case Nil
  show ?case by (simp add: same_prompts_refl)
next
  case (Cons cmd cmds)
  show ?case
    using Cons.IH [of "s\<lparr>file_to_command := (file_to_command s)(cmd_file cmd \<mapsto> cmd),
                     file_to_compile_commands := (file_to_compile_commands s)(cmd_file cmd \<mapsto> db)\<rparr>"
                      True]
          Cons.IH [of s ch]
    by (simp add: same_prompts_def)
qed

lemma updateDatabase_prompts: "same_prompts s (snd (updateDatabase h db s))"
proof (cases "db_files h db")
  case None
  then show ?thesis by (simp add: updateDatabase_def same_prompts_def)
next
  case (Some entries)
  show ?thesis
    using merge_entries_prompts
      [of "s\<lparr>heap_next := heap_next s + length entries,
             compile_commands := (compile_commands s)(db \<mapsto> readFile (heap_next s) entries)\<rparr>"
          db "readFile (heap_next s) entries" False]
    by (simp add: updateDatabase_existing [OF Some] Let_def same_prompts_def
             del: merge_entries.simps)
qed

lemma startWatching_prompts: "same_prompts s (startWatchingCompileCommandsFile h f s)"
  using updateDatabase_prompts [of s h f]
  by (simp add: startWatchingCompileCommandsFile_def stopWatching_def Let_def same_prompts_def)







text \<open>
  When a scan shows a warning to a user who answers with the ignore item, the scan ends
  with the ignore flag set.
\<close>

lemma ignore_choice_sets_flag:
  assumes answer: "\<And>p offered. showWarningMessage h p offered = Some IgnoreThis"
    and shown: "warnings_shown (snd (loadAndWatchCompileCommands h s)) \<noteq> warnings_shown s"
  shows "ignore_missing_db (snd (loadAndWatchCompileCommands h s))"
proof (cases "getBuildDir h")
  case None
  with shown show ?thesis by (simp add: loadAndWatchCompileCommands_def)
next
  case (Some found_dir)
  let ?s0 = "if build_dir s \<noteq> Some found_dir then s\<lparr>build_dir := Some found_dir\<rparr> else s"
  let ?s1 = "if build_dir_exists h
             then fold (startWatchingCompileCommandsFile h) (glob_entries h) ?s0 else s"
  have "same_prompts ?s0 (fold (startWatchingCompileCommandsFile h) (glob_entries h) ?s0)"
    by (rule same_prompts_fold) (rule startWatching_prompts)
  then have s1: "warnings_shown ?s1 = warnings_shown s"
    by (simp add: same_prompts_def)
  show ?thesis
  proof (cases "additional_cmake_args h")
    case None
    with Some shown s1 show ?thesis
      by (auto simp: loadAndWatchCompileCommands_def Let_def split: if_splits)
  next
    case args: (Some a)
    with Some shown s1 answer show ?thesis
      by (auto simp: loadAndWatchCompileCommands_def ask_trigger_build_def Let_def
               split: if_splits)
  qed
qed





section \<open>Properties of the option scan\<close>

lemma add_include_Some:
  "\<exists>v' s'. add_include h (Some p) v s = (Inr v', s')
     \<and> includePaths v' = includePaths v @ [Some p]
     \<and> defines_found v' = defines_found v
     \<and> exec_log s' = exec_log s
     \<and> default_system_include_paths s' = default_system_include_paths s
     \<and> set (system_include_browse_paths s') \<subseteq> insert (Some p) (set (system_include_browse_paths s))
     \<and> set (system_include_browse_paths s) \<subseteq> set (system_include_browse_paths s')"
proof -
  have "\<exists>b. isWorkspacePath fs (Some p) = Inr b" for fs
    by (induction fs) (auto simp: Let_def)
  then obtain b where "isWorkspacePath (workspaceFolders h) (Some p) = Inr b" by blast
  then show ?thesis
    by (cases b) (auto simp: add_include_def Let_def)
qed

lemma add_include_None:
  "add_include h None v s =
     (if workspaceFolders h = [] then
        (if None \<in> set (system_include_browse_paths s)
         then (Inr (v\<lparr>includePaths := includePaths v @ [None]\<rparr>), s)
         else (Inr (v\<lparr>includePaths := includePaths v @ [None], new_system_path_found := True\<rparr>),
               s\<lparr>system_include_browse_paths := system_include_browse_paths s @ [None]\<rparr>))
      else (Inl TypeError, s))"
  by (cases "workspaceFolders h") (simp_all add: add_include_def Let_def)

lemma not_dash_I: "\<not> startsWith ''-isystem'' ''-I''"
  by (simp add: startsWith_def)

lemma scan_ok_step:
  assumes a: "add_include h (Some p) v s = (Inr v1, s1)"
    and inc: "includePaths v1 = includePaths v @ [Some p]"
    and e: "exec_log s1 = exec_log s"
    and d: "default_system_include_paths s1 = default_system_include_paths s"
    and up: "set (system_include_browse_paths s1) \<subseteq> insert (Some p) (set (system_include_browse_paths s))"
    and lo: "set (system_include_browse_paths s) \<subseteq> set (system_include_browse_paths s1)"
    and IH: "scan_ok v1 s1 R"
  shows "scan_ok v s R"
  using inc e d up lo IH unfolding scan_ok_def
  by (cases "fst R") auto

lemma scan_options_ok: "scan_ok v s (scan_options h opts v s)"
proof (induction h opts v s rule: scan_options.induct)
  case (1 h v s)
  show ?case by (simp add: scan_ok_def)
next
  case (2 h opt rest v s)
  show ?case
  proof (cases "startsWith opt ''-I''")
    case True
    obtain v1 s1 where a: "add_include h (Some (drop 2 opt)) v s = (Inr v1, s1)"
      and f: "includePaths v1 = includePaths v @ [Some (drop 2 opt)]"
         "exec_log s1 = exec_log s"
         "default_system_include_paths s1 = default_system_include_paths s"
         "set (system_include_browse_paths s1) \<subseteq> insert (Some (drop 2 opt)) (set (system_include_browse_paths s))"
         "set (system_include_browse_paths s) \<subseteq> set (system_include_browse_paths s1)"
      using add_include_Some [of h "drop 2 opt" v s] by blast
    have "scan_ok v1 s1 (scan_options h rest v1 s1)"
      by (rule "2.IH"(1) [OF True a [symmetric] refl])
    from scan_ok_step [OF a f this] show ?thesis
      using True a by simp
  next
    case notI: False
    show ?thesis
    proof (cases "opt = ''-isystem''")
      case True
      show ?thesis
      proof (cases rest)
        case Nil
        show ?thesis
          using notI True Nil
          by (auto simp: add_include_None scan_ok_def)
      next
        case (Cons p rest')
        obtain v1 s1 where a: "add_include h (Some p) v s = (Inr v1, s1)"
          and f: "includePaths v1 = includePaths v @ [Some p]"
             "exec_log s1 = exec_log s"
             "default_system_include_paths s1 = default_system_include_paths s"
             "set (system_include_browse_paths s1) \<subseteq> insert (Some p) (set (system_include_browse_paths s))"
             "set (system_include_browse_paths s) \<subseteq> set (system_include_browse_paths s1)"
          using add_include_Some [of h p v s] by blast
        have "scan_ok v1 s1 (scan_options h rest' v1 s1)"
          by (rule "2.IH"(2) [OF notI True Cons a [symmetric] refl])
        from scan_ok_step [OF a f this] show ?thesis
          using notI True Cons a by simp
      qed
    next
      case notS: False
      show ?thesis
      proof (cases "startsWith opt ''-isystem=''")
        case True
        obtain v1 s1 where a: "add_include h (Some (drop 9 opt)) v s = (Inr v1, s1)"
          and f: "includePaths v1 = includePaths v @ [Some (drop 9 opt)]"
             "exec_log s1 = exec_log s"
             "default_system_include_paths s1 = default_system_include_paths s"
             "set (system_include_browse_paths s1) \<subseteq> insert (Some (drop 9 opt)) (set (system_include_browse_paths s))"
             "set (system_include_browse_paths s) \<subseteq> set (system_include_browse_paths s1)"
          using add_include_Some [of h "drop 9 opt" v s] by blast
        have "scan_ok v1 s1 (scan_options h rest v1 s1)"
          by (rule "2.IH"(3) [OF notI notS True a [symmetric] refl])
        from scan_ok_step [OF a f this] show ?thesis
          using notI notS True a by simp
      next
        case notE: False
        show ?thesis
        proof (cases "startsWith opt ''-D''")
          case True
          from "2.IH"(4) [OF notI notS notE True] show ?thesis
            using notI notS notE True by (auto simp: scan_ok_def split: sum.splits)
        next
          case False
          from "2.IH"(5) [OF notI notS notE False] show ?thesis
            using notI notS notE False by simp
        qed
      qed
    qed
  qed
qed

lemma Nvcc_browse:
  "system_include_browse_paths (parseCompilerDefaultsNvcc h c s) = system_include_browse_paths s"
  by (simp add: parseCompilerDefaultsNvcc_def Let_def split: exec_result.splits)

lemma Cpp_browse:
  "system_include_browse_paths (snd (parseCompilerDefaultsCpp h c s)) = system_include_browse_paths s"
  by (simp add: parseCompilerDefaultsCpp_def Let_def split: exec_result.splits)

lemma browse_signal:
  "system_include_browse_paths (snd (case fst r of Inl e \<Rightarrow> (Inl e, snd r)
       | Inr u \<Rightarrow> (Inr (), (snd r)\<lparr>system_paths_changed := n\<rparr>)))
     = system_include_browse_paths (snd r)"
  by (cases "fst r") simp_all

lemma parseCompilerDefaults_browse:
  "system_include_browse_paths (snd (parseCompilerDefaults h c args s))
     = system_include_browse_paths s"
  "system_include_browse_paths (snd (parseCompilerDefaultsCcache h c args s))
     = system_include_browse_paths s"
proof (induction h c args s and h c args s
       rule: parseCompilerDefaults_parseCompilerDefaultsCcache.induct)
  case (1 h compiler args s)
  let ?s0 = "s\<lparr>default_system_include_paths := []\<rparr>"
  let ?s1 = "if last (str_split compiler ''/'') = ''nvcc''
             then parseCompilerDefaultsNvcc h compiler ?s0 else ?s0"
  have s1: "system_include_browse_paths ?s1 = system_include_browse_paths s"
    by (simp add: Nvcc_browse)
  show ?case
  proof (cases "str_includes (last (str_split compiler ''/'')) ''ccache''")
    case True
    from "1.IH" [OF refl refl refl refl True] s1 True show ?thesis
      by (subst parseCompilerDefaults.simps)
         (auto simp add: Let_def browse_signal simp del: parseCompilerDefaults.simps
               split: if_splits)
  next
    case False
    with s1 show ?thesis
      by (subst parseCompilerDefaults.simps)
         (auto simp add: Let_def browse_signal Cpp_browse Nvcc_browse
               simp del: parseCompilerDefaults.simps split: if_splits)
  qed
next
  case (2 h caching_compiler s)
  show ?case by simp
next
  case (3 h caching_compiler a rest s)
  then show ?case by (simp del: parseCompilerDefaults.simps)
qed

lemma getSourceFileConfiguration_unfold:
  "getSourceFileConfiguration h commands s =
     (let args = str_split (cmd_command commands) '' '';
          r = (if default_system_include_paths s = []
               then parseCompilerDefaults h (hd args) (tl args) s else (Inr (), s))
      in case fst r of
           Inl e \<Rightarrow> (Inl e, snd r)
         | Inr u \<Rightarrow>
            (let q = scan_options h (tl args)
                       \<lparr>includePaths = [], defines_found = [], new_system_path_found = False\<rparr>
                       (snd r)
             in case fst q of
                  Inl e \<Rightarrow> (Inl e, snd q)
                | Inr v \<Rightarrow>
                   (Inr \<lparr>cfg_standard = cppStandard h,
                          cfg_intelliSenseMode = intelliSenseMode h,
                          cfg_includePath =
                            includePaths v @ map Some (default_system_include_paths (snd q)),
                          cfg_defines = defines_found v,
                          cfg_compilerPath = hd args\<rparr>,
                    if new_system_path_found v
                    then (snd q)\<lparr>system_paths_changed := Suc (system_paths_changed (snd q))\<rparr>
                    else snd q)))"
  by (simp add: getSourceFileConfiguration_def Let_def split: prod.splits sum.splits
           del: parseCompilerDefaults.simps)

lemma browse_growth:
  assumes "getSourceFileConfiguration h commands s = (Inr cfg, s')"
  shows "set (system_include_browse_paths s')
           \<subseteq> set (system_include_browse_paths s) \<union> set (cfg_includePath cfg)"
proof -
  let ?args = "str_split (cmd_command commands) '' ''"
  let ?r = "if default_system_include_paths s = []
            then parseCompilerDefaults h (hd ?args) (tl ?args) s else (Inr (), s)"
  let ?v0 = "\<lparr>includePaths = [], defines_found = [], new_system_path_found = False\<rparr>"
  let ?q = "scan_options h (tl ?args) ?v0 (snd ?r)"
  have r: "system_include_browse_paths (snd ?r) = system_include_browse_paths s"
    by (simp add: parseCompilerDefaults_browse del: parseCompilerDefaults.simps)
  have ok: "scan_ok ?v0 (snd ?r) ?q"
    by (rule scan_options_ok)
  from assms obtain u where fr: "fst ?r = Inr u"
    by (cases "fst ?r")
       (auto simp: getSourceFileConfiguration_unfold Let_def simp del: parseCompilerDefaults.simps)
  from assms fr obtain v where fq: "fst ?q = Inr v"
    by (cases "fst ?q")
       (auto simp: getSourceFileConfiguration_unfold Let_def simp del: parseCompilerDefaults.simps)
  from assms fr fq have cfg: "cfg_includePath cfg = includePaths v @ map Some (default_system_include_paths (snd ?q))"
    and s': "system_include_browse_paths s' = system_include_browse_paths (snd ?q)"
    by (auto simp: getSourceFileConfiguration_unfold Let_def simp del: parseCompilerDefaults.simps)
  from ok fq have "set (system_include_browse_paths (snd ?q))
      \<subseteq> set (system_include_browse_paths (snd ?r)) \<union> set (includePaths v)"
    by (simp add: scan_ok_def del: parseCompilerDefaults.simps)
  with r cfg s' show ?thesis
    by (auto simp del: parseCompilerDefaults.simps)
qed

lemma example_parse:
  "fst (getSourceFileConfiguration example_host example_record fresh_workspace)
     = Inr \<lparr>cfg_standard = ''c++17'', cfg_intelliSenseMode = ''gcc-x64'',
            cfg_includePath = [Some ''/ws/src/a/include'', Some ''/usr/include'',
                               Some ''/usr/local/include''],
            cfg_defines = [''DEBUG=1''], cfg_compilerPath = ''/usr/bin/g++''\<rparr>
   \<and> system_include_browse_paths
        (snd (getSourceFileConfiguration example_host example_record fresh_workspace))
       = [Some ''/usr/include'']
   \<and> default_system_include_paths
        (snd (getSourceFileConfiguration example_host example_record fresh_workspace))
       = [''/usr/local/include'']
   \<and> exec_log (snd (getSourceFileConfiguration example_host example_record fresh_workspace))
       = [''/usr/bin/g++ -xc++ -E -v /dev/null -o /dev/null 2>&1'']"
  by code_simp

text \<open>
  C8 (as amended). When a parse returns, every path on the browse list afterwards was on
  it before the parse or is in the include path returned: a parse adds to the browse
  list only paths that it also returns. The browse list itself belongs to the workspace
  and keeps the paths of earlier parses.
\<close>

theorem browse_paths_of_a_parse:
  assumes "fst (getSourceFileConfiguration h commands s) = Inr cfg"
  shows "set (system_include_browse_paths (snd (getSourceFileConfiguration h commands s)))
           \<subseteq> set (system_include_browse_paths s) \<union> set (cfg_includePath cfg)"
proof -
  have "getSourceFileConfiguration h commands s
          = (Inr cfg, snd (getSourceFileConfiguration h commands s))"
    using assms by (simp add: prod_eq_iff)
  then show ?thesis by (rule browse_growth)
qed

theorem browse_paths_of_a_parse_witness:
  "fst (getSourceFileConfiguration example_host example_record fresh_workspace)
     = Inr \<lparr>cfg_standard = ''c++17'', cfg_intelliSenseMode = ''gcc-x64'',
            cfg_includePath = [Some ''/ws/src/a/include'', Some ''/usr/include'',
                               Some ''/usr/local/include''],
            cfg_defines = [''DEBUG=1''], cfg_compilerPath = ''/usr/bin/g++''\<rparr>
   \<and> set (system_include_browse_paths
          (snd (getSourceFileConfiguration example_host example_record fresh_workspace)))
       \<subseteq> set (system_include_browse_paths fresh_workspace)
          \<union> set [Some ''/ws/src/a/include'', Some ''/usr/include'', Some ''/usr/local/include'']"
proof -
  let ?cfg = "\<lparr>cfg_standard = ''c++17'', cfg_intelliSenseMode = ''gcc-x64'',
            cfg_includePath = [Some ''/ws/src/a/include'', Some ''/usr/include'',
                               Some ''/usr/local/include''],
            cfg_defines = [''DEBUG=1''], cfg_compilerPath = ''/usr/bin/g++''\<rparr>"
  have returned: "fst (getSourceFileConfiguration example_host example_record fresh_workspace) = Inr ?cfg"
    using example_parse by simp
  from browse_paths_of_a_parse [OF returned] returned show ?thesis
    by simp
qed

text \<open>
  After an earlier parse has put \<^verbatim>\<open>/opt/ros/include\<close> on the browse list, the parse of
  the scenario's record leaves it there, and the include path returned does not hold it.
\<close>

theorem browse_list_outgrows_include_path_counterexample:
  "fst (getSourceFileConfiguration example_host example_record
          (snd (getSourceFileConfiguration example_host earlier_record fresh_workspace)))
     = Inr \<lparr>cfg_standard = ''c++17'', cfg_intelliSenseMode = ''gcc-x64'',
            cfg_includePath = [Some ''/ws/src/a/include'', Some ''/usr/include'',
                               Some ''/usr/local/include''],
            cfg_defines = [''DEBUG=1''], cfg_compilerPath = ''/usr/bin/g++''\<rparr>
   \<and> system_include_browse_paths
        (snd (getSourceFileConfiguration example_host example_record
               (snd (getSourceFileConfiguration example_host earlier_record fresh_workspace))))
       = [Some ''/opt/ros/include'', Some ''/usr/include'']
   \<and> Some ''/opt/ros/include''
       \<notin> set [Some ''/ws/src/a/include'', Some ''/usr/include'', Some ''/usr/local/include'']"
  by code_simp

section \<open>A trailing \<^verbatim>\<open>-isystem\<close>\<close>

text \<open>
  When the loop reads past the end, the last token is \<^verbatim>\<open>-isystem\<close>; and a last token
  \<^verbatim>\<open>-isystem\<close> after options none of which is \<^verbatim>\<open>-isystem\<close> makes the loop read past the
  end. The third lemma follows the loop: it raises, or returns with \<^verbatim>\<open>undefined\<close> pushed,
  exactly on the option lists of \<open>reads_past_end\<close>.
\<close>

lemma reads_past_end_last:
  "reads_past_end opts \<Longrightarrow> opts \<noteq> [] \<and> last opts = ''-isystem''"
  by (induction opts rule: reads_past_end.induct) (auto split: if_splits list.splits)

lemma no_isystem_before_reads_past_end:
  "''-isystem'' \<notin> set pre \<Longrightarrow> reads_past_end (pre @ [''-isystem''])"
  by (induction pre) auto

lemma scan_reads_past_end:
  "(reads_past_end opts \<longrightarrow> workspaceFolders h \<noteq> [] \<longrightarrow>
      fst (scan_options h opts v s) = Inl TypeError)
   \<and> (reads_past_end opts \<longrightarrow> workspaceFolders h = [] \<longrightarrow>
      (\<exists>v' s'. scan_options h opts v s = (Inr v', s')
         \<and> None \<in> set (includePaths v') \<and> None \<in> set (system_include_browse_paths s')))
   \<and> (\<not> reads_past_end opts \<longrightarrow>
      (\<exists>v' s'. scan_options h opts v s = (Inr v', s')
         \<and> (None \<in> set (includePaths v') \<longrightarrow> None \<in> set (includePaths v))))"
proof (induction h opts v s rule: scan_options.induct)
  case (1 h v s)
  show ?case by simp
next
  case (2 h opt rest v s)
  show ?case
  proof (cases "startsWith opt ''-I''")
    case True
    then have ne: "opt \<noteq> ''-isystem''"
      using not_dash_I by auto
    obtain v1 s1 where a: "add_include h (Some (drop 2 opt)) v s = (Inr v1, s1)"
      and inc: "includePaths v1 = includePaths v @ [Some (drop 2 opt)]"
      using add_include_Some [of h "drop 2 opt" v s] by blast
    from "2.IH"(1) [OF True a [symmetric] refl] True ne a inc show ?thesis
      by auto
  next
    case notI: False
    show ?thesis
    proof (cases "opt = ''-isystem''")
      case True
      show ?thesis
      proof (cases rest)
        case Nil
        with notI True show ?thesis
          by (auto simp: add_include_None)
      next
        case (Cons p rest')
        obtain v1 s1 where a: "add_include h (Some p) v s = (Inr v1, s1)"
          and inc: "includePaths v1 = includePaths v @ [Some p]"
          using add_include_Some [of h p v s] by blast
        from "2.IH"(2) [OF notI True Cons a [symmetric] refl] notI True Cons a inc
        show ?thesis by auto
      qed
    next
      case notS: False
      show ?thesis
      proof (cases "startsWith opt ''-isystem=''")
        case True
        obtain v1 s1 where a: "add_include h (Some (drop 9 opt)) v s = (Inr v1, s1)"
          and inc: "includePaths v1 = includePaths v @ [Some (drop 9 opt)]"
          using add_include_Some [of h "drop 9 opt" v s] by blast
        from "2.IH"(3) [OF notI notS True a [symmetric] refl] notI notS True a inc
        show ?thesis by auto
      next
        case notE: False
        show ?thesis
        proof (cases "startsWith opt ''-D''")
          case True
          from "2.IH"(4) [OF notI notS notE True] notI notS notE True show ?thesis
            by auto
        next
          case False
          from "2.IH"(5) [OF notI notS notE False] notI notS notE False show ?thesis
            by auto
        qed
      qed
    qed
  qed
qed

text \<open>
  C10 (as amended). Take any compile record, in a workspace whose default paths are
  cached or can be resolved. When the option loop arrives at a last token \<^verbatim>\<open>-isystem\<close>
  that is not the path of a \<^verbatim>\<open>-isystem\<close> before it, it reads the token after the last
  one with no bounds test and gets \<^verbatim>\<open>undefined\<close>: with at least one workspace folder open,
  \<open>isWorkspacePath\<close> raises a TypeError on it and no configuration is returned; with no
  workspace folder, the call returns, and \<^verbatim>\<open>undefined\<close> is in the include path returned
  and on the browse list. For every other command the call returns and the include
  path holds no \<^verbatim>\<open>undefined\<close>.
\<close>

theorem trailing_isystem_reads_past_end:
  assumes resolved: "default_system_include_paths s \<noteq> []
     \<or> fst (parseCompilerDefaults h (hd (str_split (cmd_command commands) '' ''))
              (tl (str_split (cmd_command commands) '' '')) s) = Inr ()"
  shows "(reads_past_end (tl (str_split (cmd_command commands) '' '')) \<longrightarrow>
            last (str_split (cmd_command commands) '' '') = ''-isystem'')
       \<and> (reads_past_end (tl (str_split (cmd_command commands) '' '')) \<longrightarrow>
            workspaceFolders h \<noteq> [] \<longrightarrow>
            fst (getSourceFileConfiguration h commands s) = Inl TypeError)
       \<and> (reads_past_end (tl (str_split (cmd_command commands) '' '')) \<longrightarrow>
            workspaceFolders h = [] \<longrightarrow>
            (\<exists>cfg. fst (getSourceFileConfiguration h commands s) = Inr cfg
                   \<and> None \<in> set (cfg_includePath cfg))
            \<and> None \<in> set (system_include_browse_paths
                             (snd (getSourceFileConfiguration h commands s))))
       \<and> (\<not> reads_past_end (tl (str_split (cmd_command commands) '' '')) \<longrightarrow>
            (\<exists>cfg. fst (getSourceFileConfiguration h commands s) = Inr cfg
                   \<and> None \<notin> set (cfg_includePath cfg)))"
proof -
  let ?toks = "str_split (cmd_command commands) '' ''"
  let ?r = "if default_system_include_paths s = []
            then parseCompilerDefaults h (hd ?toks) (tl ?toks) s else (Inr (), s)"
  let ?v0 = "\<lparr>includePaths = [], defines_found = [], new_system_path_found = False\<rparr>"
  let ?q = "scan_options h (tl ?toks) ?v0 (snd ?r)"
  have fr: "fst ?r = Inr ()"
    using resolved by (auto simp del: parseCompilerDefaults.simps)
  have whole: "getSourceFileConfiguration h commands s =
     (case fst ?q of
        Inl e \<Rightarrow> (Inl e, snd ?q)
      | Inr v \<Rightarrow>
          (Inr \<lparr>cfg_standard = cppStandard h, cfg_intelliSenseMode = intelliSenseMode h,
                 cfg_includePath = includePaths v @ map Some (default_system_include_paths (snd ?q)),
                 cfg_defines = defines_found v, cfg_compilerPath = hd ?toks\<rparr>,
           if new_system_path_found v
           then (snd ?q)\<lparr>system_paths_changed := Suc (system_paths_changed (snd ?q))\<rparr>
           else snd ?q))"
    unfolding getSourceFileConfiguration_unfold Let_def
    using fr by (cases "fst ?q") (simp_all del: parseCompilerDefaults.simps)
  note scan = scan_reads_past_end [of "tl ?toks" h ?v0 "snd ?r"]
  have last_token: "last ?toks = ''-isystem''" if "reads_past_end (tl ?toks)"
  proof -
    from reads_past_end_last [OF that]
    have "tl ?toks \<noteq> []" and "last (tl ?toks) = ''-isystem''" by simp_all
    then show ?thesis by (simp add: last_tl)
  qed
  have raises: "fst (getSourceFileConfiguration h commands s) = Inl TypeError"
    if "reads_past_end (tl ?toks)" and "workspaceFolders h \<noteq> []"
    using scan that by (simp add: whole del: parseCompilerDefaults.simps)
  have undefined_returned:
    "(\<exists>cfg. fst (getSourceFileConfiguration h commands s) = Inr cfg
            \<and> None \<in> set (cfg_includePath cfg))
     \<and> None \<in> set (system_include_browse_paths
                      (snd (getSourceFileConfiguration h commands s)))"
    if "reads_past_end (tl ?toks)" and "workspaceFolders h = []"
  proof -
    from scan that obtain v' s' where q: "?q = (Inr v', s')"
      and inc: "None \<in> set (includePaths v')"
      and b: "None \<in> set (system_include_browse_paths s')"
      by blast
    from q inc b show ?thesis
      by (simp add: whole del: parseCompilerDefaults.simps)
  qed
  have nothing_read:
    "\<exists>cfg. fst (getSourceFileConfiguration h commands s) = Inr cfg
           \<and> None \<notin> set (cfg_includePath cfg)"
    if "\<not> reads_past_end (tl ?toks)"
  proof -
    from scan that obtain v' s' where q: "?q = (Inr v', s')"
      and inc: "None \<in> set (includePaths v') \<longrightarrow> None \<in> set (includePaths ?v0)"
      by blast
    from inc have "None \<notin> set (includePaths v')" by simp
    with q show ?thesis
      by (auto simp add: whole simp del: parseCompilerDefaults.simps)
  qed
  from last_token raises undefined_returned nothing_read show ?thesis
    by blast
qed

lemma isystem_examples:
  "reads_past_end (tl (str_split (cmd_command trailing_isystem_record) '' ''))
   \<and> reads_past_end (tl (str_split (cmd_command second_isystem_record) '' ''))
   \<and> \<not> reads_past_end (tl (str_split (cmd_command doubled_isystem_record) '' ''))"
  by code_simp

lemma isystem_examples_resolved:
  "fst (parseCompilerDefaults example_host
          (hd (str_split (cmd_command trailing_isystem_record) '' ''))
          (tl (str_split (cmd_command trailing_isystem_record) '' '')) fresh_workspace) = Inr ()
   \<and> fst (parseCompilerDefaults example_host
          (hd (str_split (cmd_command second_isystem_record) '' ''))
          (tl (str_split (cmd_command second_isystem_record) '' '')) fresh_workspace) = Inr ()
   \<and> fst (parseCompilerDefaults folderless_host
          (hd (str_split (cmd_command second_isystem_record) '' ''))
          (tl (str_split (cmd_command second_isystem_record) '' '')) fresh_workspace) = Inr ()
   \<and> fst (parseCompilerDefaults example_host
          (hd (str_split (cmd_command doubled_isystem_record) '' ''))
          (tl (str_split (cmd_command doubled_isystem_record) '' '')) fresh_workspace) = Inr ()"
  by code_simp

theorem trailing_isystem_reads_past_end_witness:
  "reads_past_end (tl (str_split (cmd_command trailing_isystem_record) '' ''))
   \<and> reads_past_end (tl (str_split (cmd_command second_isystem_record) '' ''))
   \<and> \<not> reads_past_end (tl (str_split (cmd_command doubled_isystem_record) '' ''))
   \<and> workspaceFolders example_host \<noteq> [] \<and> workspaceFolders folderless_host = []
   \<and> last (str_split (cmd_command second_isystem_record) '' '') = ''-isystem''
   \<and> fst (getSourceFileConfiguration example_host trailing_isystem_record fresh_workspace)
       = Inl TypeError
   \<and> fst (getSourceFileConfiguration example_host second_isystem_record fresh_workspace)
       = Inl TypeError
   \<and> (\<exists>cfg. fst (getSourceFileConfiguration folderless_host second_isystem_record
                    fresh_workspace) = Inr cfg
             \<and> None \<in> set (cfg_includePath cfg))
   \<and> None \<in> set (system_include_browse_paths
                    (snd (getSourceFileConfiguration folderless_host second_isystem_record
                            fresh_workspace)))
   \<and> (\<exists>cfg. fst (getSourceFileConfiguration example_host doubled_isystem_record
                    fresh_workspace) = Inr cfg
             \<and> None \<notin> set (cfg_includePath cfg))"
proof -
  have folders: "workspaceFolders example_host \<noteq> []" "workspaceFolders folderless_host = []"
    by (simp_all add: example_host_def folderless_host_def)
  note ex = isystem_examples and res = isystem_examples_resolved
  from trailing_isystem_reads_past_end
         [where h = example_host and commands = trailing_isystem_record and s = fresh_workspace]
       trailing_isystem_reads_past_end
         [where h = example_host and commands = second_isystem_record and s = fresh_workspace]
       trailing_isystem_reads_past_end
         [where h = folderless_host and commands = second_isystem_record and s = fresh_workspace]
       trailing_isystem_reads_past_end
         [where h = example_host and commands = doubled_isystem_record and s = fresh_workspace]
       ex res folders
  show ?thesis
    by (simp del: parseCompilerDefaults.simps)
qed

text \<open>
  With a folder open the command \<^verbatim>\<open>/usr/bin/g++ -isystem\<close> ends in a TypeError, not in
  a returned include path; and in \<^verbatim>\<open>/usr/bin/g++ -isystem -isystem\<close> the last token is
  the path of the option before it, so nothing is read past the end.
\<close>

theorem trailing_isystem_counterexample:
  "fst (getSourceFileConfiguration example_host trailing_isystem_record fresh_workspace)
     = Inl TypeError
   \<and> fst (getSourceFileConfiguration example_host doubled_isystem_record fresh_workspace)
     = Inr \<lparr>cfg_standard = ''c++17'', cfg_intelliSenseMode = ''gcc-x64'',
            cfg_includePath = [Some ''-isystem'', Some ''/usr/local/include''],
            cfg_defines = [], cfg_compilerPath = ''/usr/bin/g++''\<rparr>"
  by code_simp

section \<open>The cache of default paths\<close>

lemma parse_keeps_resolution:
  fixes h commands s
  defines "r \<equiv> (if default_system_include_paths s = []
                 then parseCompilerDefaults h (hd (str_split (cmd_command commands) '' ''))
                        (tl (str_split (cmd_command commands) '' '')) s
                 else (Inr (), s))"
  shows "exec_log (snd (getSourceFileConfiguration h commands s)) = exec_log (snd r)
       \<and> default_system_include_paths (snd (getSourceFileConfiguration h commands s))
           = default_system_include_paths (snd r)"
proof -
  let ?v0 = "\<lparr>includePaths = [], defines_found = [], new_system_path_found = False\<rparr>"
  let ?q = "scan_options h (tl (str_split (cmd_command commands) '' '')) ?v0 (snd r)"
  have ok: "scan_ok ?v0 (snd r) ?q"
    by (rule scan_options_ok)
  show ?thesis
  proof (cases "fst r")
    case (Inl e)
    then show ?thesis
      unfolding getSourceFileConfiguration_unfold Let_def r_def [symmetric]
      by (simp del: parseCompilerDefaults.simps)
  next
    case (Inr u)
    show ?thesis
    proof (cases "fst ?q")
      case (Inl e)
      with Inr ok show ?thesis
        unfolding getSourceFileConfiguration_unfold Let_def r_def [symmetric]
        by (simp add: scan_ok_def del: parseCompilerDefaults.simps)
    next
      case inner: (Inr v)
      with Inr ok show ?thesis
        unfolding getSourceFileConfiguration_unfold Let_def r_def [symmetric]
        by (simp add: scan_ok_def del: parseCompilerDefaults.simps)
    qed
  qed
qed

lemma fold_keeps:
  assumes "\<And>x t. g (step x t) = g t"
  shows "g (fold step xs s) = g s"
  by (induction xs arbitrary: s) (simp_all add: assms)

lemma merge_entries_defaults:
  "default_system_include_paths (snd (merge_entries db cmds ch s)) = default_system_include_paths s"
  by (induction cmds arbitrary: s ch) auto

lemma updateDatabase_defaults:
  "default_system_include_paths (snd (updateDatabase h db s)) = default_system_include_paths s"
proof (cases "db_files h db")
  case None
  then show ?thesis by (simp add: updateDatabase_def)
next
  case (Some entries)
  show ?thesis
    by (simp add: updateDatabase_existing [OF Some] Let_def merge_entries_defaults
             del: merge_entries.simps)
qed

lemma startWatching_defaults:
  "default_system_include_paths (startWatchingCompileCommandsFile h f s)
     = default_system_include_paths s"
  by (simp add: startWatchingCompileCommandsFile_def stopWatching_def Let_def
        updateDatabase_defaults)

lemma scan_defaults:
  "default_system_include_paths (snd (loadAndWatchCompileCommands h s))
     = default_system_include_paths s"
proof (cases "getBuildDir h")
  case None
  then show ?thesis by (simp add: loadAndWatchCompileCommands_def)
next
  case (Some found_dir)
  have watched: "default_system_include_paths
          (fold (startWatchingCompileCommandsFile h) (glob_entries h) t)
        = default_system_include_paths t" for t
    by (rule fold_keeps) (rule startWatching_defaults)
  show ?thesis
    using Some
    by (simp add: loadAndWatchCompileCommands_def Let_def ask_trigger_build_def watched
             split: option.splits)
qed

lemma loadPackage_defaults:
  "default_system_include_paths (loadPackage parsed s) = default_system_include_paths s"
  by (cases parsed) (simp_all add: loadPackage_def)

lemma push_dependee_defaults:
  "default_system_include_paths (push_dependee nm d s) = default_system_include_paths s"
  by (simp add: push_dependee_def split: option.splits)

lemma buildDependencyGraph_defaults:
  "default_system_include_paths (buildDependencyGraph s) = default_system_include_paths s"
  unfolding buildDependencyGraph_def
  by (rule fold_keeps) (rule fold_keeps, rule push_dependee_defaults)

lemma reload_clears_defaults: "default_system_include_paths (reload h s) = []"
proof -
  let ?s1 = "s\<lparr>watchers := {}, compile_commands := Map.empty, file_to_command := Map.empty,
                 file_to_compile_commands := Map.empty, system_include_browse_paths := [],
                 default_system_include_paths := [], packages := [],
                 build_commands_changed := Suc (build_commands_changed s)\<rparr>"
  let ?r = "loadAndWatchCompileCommands h ?s1"
  have scanned: "default_system_include_paths (snd ?r) = []"
    by (simp add: scan_defaults)
  have loaded: "default_system_include_paths (fold loadPackage (package_descriptors h) (snd ?r)) = []"
    using scanned fold_keeps [of default_system_include_paths loadPackage, OF loadPackage_defaults]
    by simp
  show ?thesis
  proof (cases "fst ?r")
    case (Inl e)
    with scanned show ?thesis by (cases ?r) (simp add: reload_def)
  next
    case (Inr u)
    with loaded show ?thesis
      by (cases ?r) (simp add: reload_def buildDependencyGraph_defaults)
  qed
qed

text \<open>
  C4 (as amended). The default paths are cached in one list of the workspace, not per
  compiler. A parse resolves defaults exactly when that list is empty, and then for the
  compiler of the record being parsed; when the list is not empty no compiler is run and
  the list stays as it is, whichever compiler the record names. A reload empties the list.
\<close>

theorem one_cache_for_all_compilers:
  "(default_system_include_paths s \<noteq> [] \<longrightarrow>
      exec_log (snd (getSourceFileConfiguration h commands s)) = exec_log s
      \<and> default_system_include_paths (snd (getSourceFileConfiguration h commands s))
          = default_system_include_paths s)
   \<and> (default_system_include_paths s = [] \<longrightarrow>
      exec_log (snd (getSourceFileConfiguration h commands s))
        = exec_log (snd (parseCompilerDefaults h (hd (str_split (cmd_command commands) '' ''))
                           (tl (str_split (cmd_command commands) '' '')) s))
      \<and> default_system_include_paths (snd (getSourceFileConfiguration h commands s))
        = default_system_include_paths
            (snd (parseCompilerDefaults h (hd (str_split (cmd_command commands) '' ''))
                    (tl (str_split (cmd_command commands) '' '')) s)))
   \<and> default_system_include_paths (reload h' s) = []"
  using parse_keeps_resolution [of h commands s] reload_clears_defaults [of h' s]
  by (simp del: parseCompilerDefaults.simps)

theorem one_cache_for_all_compilers_witness:
  "default_system_include_paths after_first_parse \<noteq> []
   \<and> exec_log (snd (getSourceFileConfiguration example_host clang_record after_first_parse))
       = exec_log after_first_parse
   \<and> default_system_include_paths fresh_workspace = []
   \<and> default_system_include_paths after_first_parse
       = default_system_include_paths
           (snd (parseCompilerDefaults example_host
                   (hd (str_split (cmd_command example_record) '' ''))
                   (tl (str_split (cmd_command example_record) '' '')) fresh_workspace))
   \<and> default_system_include_paths (reload example_host after_first_parse) = []"
proof -
  have cached: "default_system_include_paths after_first_parse \<noteq> []"
    using example_parse by (simp add: after_first_parse_def)
  have empty: "default_system_include_paths fresh_workspace = []"
    by (simp add: fresh_workspace_def)
  from one_cache_for_all_compilers
         [where s = after_first_parse and h = example_host and commands = clang_record
            and h' = example_host]
       one_cache_for_all_compilers
         [where s = fresh_workspace and h = example_host and commands = example_record
            and h' = example_host]
       cached empty
  show ?thesis
    by (simp add: after_first_parse_def del: parseCompilerDefaults.simps)
qed

text \<open>
  After the defaults of \<^verbatim>\<open>/usr/bin/g++\<close> are cached, the parse of a record for
  \<^verbatim>\<open>/usr/bin/clang++\<close> runs no compiler and returns the defaults of \<^verbatim>\<open>g++\<close>.
\<close>

theorem second_compiler_not_resolved_counterexample:
  "default_system_include_paths after_first_parse = [''/usr/local/include'']
   \<and> exec_log after_first_parse = [''/usr/bin/g++ -xc++ -E -v /dev/null -o /dev/null 2>&1'']
   \<and> exec_log (snd (getSourceFileConfiguration example_host clang_record after_first_parse))
       = [''/usr/bin/g++ -xc++ -E -v /dev/null -o /dev/null 2>&1'']
   \<and> fst (getSourceFileConfiguration example_host clang_record after_first_parse)
       = Inr \<lparr>cfg_standard = ''c++17'', cfg_intelliSenseMode = ''gcc-x64'',
              cfg_includePath = [Some ''/usr/local/include''],
              cfg_defines = [''NDEBUG''], cfg_compilerPath = ''/usr/bin/clang++''\<rparr>"
  by code_simp

section \<open>The end-to-end scenario\<close>

lemma example_tokens:
  "str_split (cmd_command example_record) '' ''
     = [''/usr/bin/g++'', ''-I/ws/src/a/include'', ''-isystem'', ''/usr/include'',
        ''-DDEBUG=1'', ''a.cpp'']"
  by (simp add: example_record_def example_entry_def str_split_def startsWith_def)

lemma example_scan:
  assumes "workspaceFolders h = [''/ws'']"
  shows "scan_options h [''-I/ws/src/a/include'', ''-isystem'', ''/usr/include'', ''-DDEBUG=1'', ''a.cpp'']
           \<lparr>includePaths = [], defines_found = [], new_system_path_found = False\<rparr> t
         = (Inr \<lparr>includePaths = [Some ''/ws/src/a/include'', Some ''/usr/include''],
                  defines_found = [''DEBUG=1''],
                  new_system_path_found = (Some ''/usr/include'' \<notin> set (system_include_browse_paths t))\<rparr>,
            if Some ''/usr/include'' \<in> set (system_include_browse_paths t) then t
            else t\<lparr>system_include_browse_paths := system_include_browse_paths t @ [Some ''/usr/include'']\<rparr>)"
  by (simp add: add_include_def startsWith_def Let_def assms)

lemma gpp_defaults:
  assumes "execSync h ''/usr/bin/g++ -xc++ -E -v /dev/null -o /dev/null 2>&1'' = Exit0 out"
  shows "parseCompilerDefaults h ''/usr/bin/g++'' args t
         = (Inr (), t\<lparr>default_system_include_paths := cpp_scan False False (str_split out [CHR 0x0A]),
                        exec_log := exec_log t @ [''/usr/bin/g++ -xc++ -E -v /dev/null -o /dev/null 2>&1''],
                        system_paths_changed := Suc (system_paths_changed t)\<rparr>)"
proof -
  have nm: "last (str_split ''/usr/bin/g++'' ''/'') = ''g++''"
    by (simp add: str_split_def startsWith_def)
  have plain: "''g++'' \<noteq> ''nvcc''" "\<not> str_includes ''g++'' ''ccache''"
    by (simp_all add: startsWith_def)
  show ?thesis
    using assms plain
    by (subst parseCompilerDefaults.simps)
       (simp add: nm Let_def parseCompilerDefaultsCpp_def
             del: parseCompilerDefaults.simps str_includes.simps)
qed

text \<open>
  C5 (as amended). In a workspace rooted at \<^verbatim>\<open>/ws\<close>, for the record with the command
  \<^verbatim>\<open>/usr/bin/g++ -I/ws/src/a/include -isystem /usr/include -DDEBUG=1 a.cpp\<close>, and with the
  default paths cached or \<^verbatim>\<open>g++\<close> exiting with status zero, \<open>getSourceFileConfiguration\<close>
  returns the include path \<^verbatim>\<open>/ws/src/a/include\<close>, \<^verbatim>\<open>/usr/include\<close> followed by the default
  paths, the defines \<^verbatim>\<open>[DEBUG=1]\<close> and the compiler path \<^verbatim>\<open>/usr/bin/g++\<close>. The browse list
  gets \<^verbatim>\<open>/usr/include\<close> at its end unless it holds it already, and nothing else: the
  default paths are not put on it.
\<close>

theorem end_to_end_scenario:
  assumes folders: "workspaceFolders h = [''/ws'']"
    and resolved: "default_system_include_paths s \<noteq> []
       \<or> execSync h ''/usr/bin/g++ -xc++ -E -v /dev/null -o /dev/null 2>&1'' = Exit0 out"
  shows "fst (getSourceFileConfiguration h example_record s)
           = Inr \<lparr>cfg_standard = cppStandard h, cfg_intelliSenseMode = intelliSenseMode h,
                  cfg_includePath = [Some ''/ws/src/a/include'', Some ''/usr/include'']
                    @ map Some (default_system_include_paths
                                  (snd (getSourceFileConfiguration h example_record s))),
                  cfg_defines = [''DEBUG=1''], cfg_compilerPath = ''/usr/bin/g++''\<rparr>
       \<and> system_include_browse_paths (snd (getSourceFileConfiguration h example_record s))
           = (if Some ''/usr/include'' \<in> set (system_include_browse_paths s)
              then system_include_browse_paths s
              else system_include_browse_paths s @ [Some ''/usr/include''])
       \<and> default_system_include_paths (snd (getSourceFileConfiguration h example_record s))
           = (if default_system_include_paths s = []
              then cpp_scan False False (str_split out [CHR 0x0A])
              else default_system_include_paths s)"
proof (cases "default_system_include_paths s = []")
  case True
  with resolved have ex: "execSync h ''/usr/bin/g++ -xc++ -E -v /dev/null -o /dev/null 2>&1'' = Exit0 out"
    by simp
  show ?thesis
    unfolding getSourceFileConfiguration_unfold example_tokens Let_def
    using True
    by (simp add: gpp_defaults [OF ex] example_scan [OF folders]
             del: parseCompilerDefaults.simps scan_options.simps)
next
  case False
  show ?thesis
    unfolding getSourceFileConfiguration_unfold example_tokens Let_def
    using False
    by (simp add: example_scan [OF folders]
             del: parseCompilerDefaults.simps scan_options.simps)
qed

lemma gcc_output_scan:
  "cpp_scan False False (str_split gcc_verbose_output [CHR 0x0A]) = [''/usr/local/include'']"
  by code_simp

theorem end_to_end_scenario_witness:
  "workspaceFolders example_host = [''/ws'']
   \<and> execSync example_host ''/usr/bin/g++ -xc++ -E -v /dev/null -o /dev/null 2>&1''
       = Exit0 gcc_verbose_output
   \<and> fst (getSourceFileConfiguration example_host example_record fresh_workspace)
       = Inr \<lparr>cfg_standard = ''c++17'', cfg_intelliSenseMode = ''gcc-x64'',
              cfg_includePath = [Some ''/ws/src/a/include'', Some ''/usr/include'',
                                 Some ''/usr/local/include''],
              cfg_defines = [''DEBUG=1''], cfg_compilerPath = ''/usr/bin/g++''\<rparr>
   \<and> system_include_browse_paths
        (snd (getSourceFileConfiguration example_host example_record fresh_workspace))
       = [Some ''/usr/include'']"
proof -
  have folders: "workspaceFolders example_host = [''/ws'']"
    by (simp add: example_host_def)
  have run: "execSync example_host ''/usr/bin/g++ -xc++ -E -v /dev/null -o /dev/null 2>&1''
               = Exit0 gcc_verbose_output"
    by (simp add: example_host_def)
  have config: "cppStandard example_host = ''c++17''" "intelliSenseMode example_host = ''gcc-x64''"
    by (simp_all add: example_host_def)
  have fresh: "default_system_include_paths fresh_workspace = []"
       "system_include_browse_paths fresh_workspace = []"
    by (simp_all add: fresh_workspace_def)
  from end_to_end_scenario [OF folders disjI2 [OF run], of fresh_workspace]
  show ?thesis
    by (simp add: folders run config fresh gcc_output_scan)
qed

text \<open>
  The default path \<^verbatim>\<open>/usr/local/include\<close> is outside the workspace and is returned in
  the include path, but the browse list after the parse holds \<^verbatim>\<open>/usr/include\<close> alone.
\<close>

theorem defaults_not_on_browse_list_counterexample:
  "default_system_include_paths after_first_parse = [''/usr/local/include'']
   \<and> isWorkspacePath (workspaceFolders example_host) (Some ''/usr/local/include'') = Inr False
   \<and> system_include_browse_paths after_first_parse = [Some ''/usr/include'']
   \<and> Some ''/usr/local/include'' \<notin> set (system_include_browse_paths after_first_parse)"
  by code_simp

section \<open>The traversal of dependent packages\<close>

lemma loop_is_run_until:
  "dependents_loop s f seen q st = run_until f (map snd (visit_order s seen q)) st"
proof (induction s seen q arbitrary: st rule: visit_order.induct)
  case (1 s seen)
  show ?case by simp
next
  case (2 s seen n queue)
  show ?case
  proof (cases "n \<in> seen")
    case True
    with "2.IH"(3) show ?thesis by simp
  next
    case False
    show ?thesis
    proof (cases "getPackage s n")
      case None
      with False "2.IH"(1) show ?thesis by simp
    next
      case (Some p)
      with False "2.IH"(2) [OF False Some] show ?thesis
        by (simp split: prod.splits bool.splits)
    qed
  qed
qed

lemma visit_order_names:
  "distinct (map fst (visit_order s seen q)) \<and> fst ` set (visit_order s seen q) \<inter> seen = {}"
proof (induction s seen q rule: visit_order.induct)
  case (1 s seen)
  show ?case by simp
next
  case (2 s seen n queue)
  show ?case
  proof (cases "n \<in> seen")
    case True
    with "2.IH"(3) show ?thesis by simp
  next
    case False
    show ?thesis
    proof (cases "getPackage s n")
      case None
      with False "2.IH"(1) show ?thesis by auto
    next
      case (Some p)
      with False "2.IH"(2) [OF False Some] show ?thesis
        by auto
    qed
  qed
qed

lemma visit_order_resolved:
  "list_all (\<lambda>e. getPackage s (fst e) = Some (snd e)) (visit_order s seen q)"
proof (induction s seen q rule: visit_order.induct)
  case (1 s seen)
  show ?case by simp
next
  case (2 s seen n queue)
  show ?case
  proof (cases "n \<in> seen")
    case True
    with "2.IH"(3) show ?thesis by simp
  next
    case False
    show ?thesis
    proof (cases "getPackage s n")
      case None
      with False "2.IH"(1) show ?thesis by simp
    next
      case (Some p)
      with False "2.IH"(2) [OF False Some] show ?thesis
        by simp
    qed
  qed
qed

lemma level_scan_seen: "fst (level_scan s seen frontier) = seen \<union> set frontier"
proof (induction frontier arbitrary: seen)
  case Nil
  show ?case by simp
next
  case (Cons n frontier)
  show ?case
  proof (cases "n \<in> seen")
    case True
    with Cons.IH [of seen] show ?thesis by auto
  next
    case False
    show ?thesis
    proof (cases "getPackage s n")
      case None
      with False Cons.IH [of "insert n seen"] show ?thesis by simp
    next
      case (Some p)
      obtain seen' visited next_level
        where scanned: "level_scan s (insert n seen) frontier = (seen', visited, next_level)"
        by (cases "level_scan s (insert n seen) frontier") auto
      with Cons.IH [of "insert n seen"] have "seen' = insert n seen \<union> set frontier"
        by simp
      with False Some scanned show ?thesis by simp
    qed
  qed
qed

lemma queue_discipline:
  "visit_order s seen (frontier @ later) =
     (case level_scan s seen frontier of
        (seen', visited, next_level) \<Rightarrow> visited @ visit_order s seen' (later @ next_level))"
proof (induction frontier arbitrary: seen later)
  case Nil
  show ?case by simp
next
  case (Cons n frontier)
  show ?case
  proof (cases "n \<in> seen")
    case True
    with Cons.IH [of seen later] show ?thesis by simp
  next
    case False
    show ?thesis
    proof (cases "getPackage s n")
      case None
      with False Cons.IH [of "insert n seen" later] show ?thesis by simp
    next
      case (Some p)
      with False Cons.IH [of "insert n seen" "later @ dependees p"] show ?thesis
        by (simp split: prod.splits)
    qed
  qed
qed


lemma example_graph_A: "getPackage example_graph ''A'' = Some package_A"
  by code_simp

text \<open>
  C6. The traversal from a package runs the callback over the packages of
  \<open>visit_order\<close>, from the empty seen-set and the package's direct dependees, in that
  order: it returns true at the first package the callback accepts, running nothing
  after it, and false when the order is used up. The names in that order are distinct,
  and each resolves to the package visited, so a name that resolves to no package is
  never visited. The order is breadth-first: it is the packages visited in the first
  level, followed by the order from the seen-set and the next frontier that level
  leaves; and a level leaves in the seen-set every name of its frontier, resolved or
  not. For the packages \<open>A \<leftarrow> B \<leftarrow> C\<close> and \<open>A \<leftarrow> D\<close> the packages visited from \<open>A\<close> are
  \<open>B\<close>, \<open>D\<close>, \<open>C\<close>, each once; a callback that accepts \<open>D\<close> stops the walk before \<open>C\<close>;
  and a start package whose dependees repeat a name and hold an unknown one gives the
  same visits.
\<close>

theorem dependents_are_walked_breadth_first:
  "iterateDependentPackages s start visit st
     = run_until visit (map snd (visit_order s {} (dependees start))) st
   \<and> distinct (map fst (visit_order s {} (dependees start)))
   \<and> list_all (\<lambda>e. getPackage s (fst e) = Some (snd e)) (visit_order s {} (dependees start))
   \<and> visit_order s seen frontier
       = (case level_scan s seen frontier of
            (seen', visited, next_level) \<Rightarrow> visited @ visit_order s seen' next_level)
   \<and> fst (level_scan s seen frontier) = seen \<union> set frontier
   \<and> getPackage example_graph ''A'' = Some package_A
   \<and> iterateDependentPackages example_graph package_A
        (\<lambda>p visited. (False, visited @ [name p])) []
       = (False, [''B'', ''D'', ''C''])
   \<and> iterateDependentPackages example_graph package_A
        (\<lambda>p visited. (name p = ''D'', visited @ [name p])) []
       = (True, [''B'', ''D''])
   \<and> iterateDependentPackages example_graph
        \<lparr>name = ''A'', dependencies = [], dependees = [''B'', ''ghost'', ''D'', ''B'']\<rparr>
        (\<lambda>p visited. (False, visited @ [name p])) []
       = (False, [''B'', ''D'', ''C''])"
proof -
  have run: "iterateDependentPackages s start visit st
     = run_until visit (map snd (visit_order s {} (dependees start))) st"
    by (simp add: iterateDependentPackages_def loop_is_run_until)
  have names: "distinct (map fst (visit_order s {} (dependees start)))"
    using visit_order_names [of s "{}" "dependees start"] by simp
  have levels: "visit_order s seen frontier
       = (case level_scan s seen frontier of
            (seen', visited, next_level) \<Rightarrow> visited @ visit_order s seen' next_level)"
    using queue_discipline [of s seen frontier "[]"] by simp
  have example: "iterateDependentPackages example_graph package_A
        (\<lambda>p visited. (False, visited @ [name p])) []
       = (False, [''B'', ''D'', ''C''])"
    by code_simp
  have stopped: "iterateDependentPackages example_graph package_A
        (\<lambda>p visited. (name p = ''D'', visited @ [name p])) []
       = (True, [''B'', ''D''])"
    by code_simp
  have stale: "iterateDependentPackages example_graph
        \<lparr>name = ''A'', dependencies = [], dependees = [''B'', ''ghost'', ''D'', ''B'']\<rparr>
        (\<lambda>p visited. (False, visited @ [name p])) []
       = (False, [''B'', ''D'', ''C''])"
    by code_simp
  show ?thesis
    using run names visit_order_resolved [of s "{}" "dependees start"] levels
      level_scan_seen [of s seen frontier] example_graph_A example stopped stale
    by (intro conjI)
qed

end
